theory Spec2Isabelle
  imports Complex_Main "HOL-Library.AList"
begin

section \<open>Job store (src/utils/jobStore.ts, class JobStore)\<close>

text \<open>
  Dates are milliseconds since the epoch (\<open>Date.getTime()\<close>), an \<open>int\<close>. Every
  operation that reads the clock (\<open>new Date()\<close>, \<open>Date.now()\<close>) takes the reading as
  its parameter \<open>now\<close>. JavaScript numbers that hold counts and percentages are
  \<open>int\<close> or \<open>nat\<close>.
\<close>

datatype JobStatus = Queued | Processing | Ready | Failed

record Job =
  jobId :: string
  fileIds :: "int list"
  status :: JobStatus
  progress :: int
  downloadUrl :: "string option"
  s3Key :: "string option"
  error :: "string option"
  createdAt :: int
  updatedAt :: int
  processingStartedAt :: "int option"
  completedAt :: "int option"

record CreateJobInput =
  c_jobId :: string
  c_fileIds :: "int list"

text \<open>
  \<open>UpdateJobInput\<close>: every property is optional; \<open>None\<close> is a property that is not
  present in the object literal passed to \<open>updateJob\<close>.
\<close>

record UpdateJobInput =
  u_status :: "JobStatus option"
  u_progress :: "int option"
  u_downloadUrl :: "string option"
  u_s3Key :: "string option"
  u_error :: "string option"
  u_processingStartedAt :: "int option"
  u_completedAt :: "int option"

definition noUpdates :: UpdateJobInput where
  "noUpdates = \<lparr>u_status = None, u_progress = None, u_downloadUrl = None, u_s3Key = None,
     u_error = None, u_processingStartedAt = None, u_completedAt = None\<rparr>"

text \<open>
  What \<open>EventEmitter.emit\<close> was called with: the event name and the payload. The per-job
  stream of job \<open>id\<close> is the event name \<open>job:id\<close>, whose payloads are
  \<open>{type, job}\<close>; the global streams \<open>job:created\<close>, \<open>job:completed\<close> and
  \<open>job:failed\<close> carry the job alone.
\<close>

datatype payload = Typed string Job | Plain Job

type_synonym emitted = "string \<times> payload"

text \<open>
  The \<open>Map\<close> of jobs is an association list in insertion order: \<open>Map.set\<close> replaces
  the value of a key that is present where it stands and appends a new key at the end,
  which is \<open>AList.update\<close>; \<open>Map.get\<close> is \<open>map_of\<close>; \<open>Map.delete\<close> is
  \<open>AList.delete\<close>. The list of emitted events grows at its end.
\<close>

record JobStore =
  jobs :: "(string \<times> Job) list"
  events :: "emitted list"

definition newJobStore :: JobStore where
  "newJobStore = \<lparr>jobs = [], events = []\<rparr>"

definition emit :: "string \<Rightarrow> payload \<Rightarrow> JobStore \<Rightarrow> JobStore" where
  "emit name p s = s\<lparr>events := events s @ [(name, p)]\<rparr>"

definition jobChannel :: "string \<Rightarrow> string" where
  "jobChannel jid = ''job:'' @ jid"

definition createJob :: "CreateJobInput \<Rightarrow> int \<Rightarrow> JobStore \<Rightarrow> Job \<times> JobStore" where
  "createJob input now s =
     (let job = \<lparr>jobId = c_jobId input, fileIds = c_fileIds input, status = Queued,
                  progress = 0, downloadUrl = None, s3Key = None, error = None,
                  createdAt = now, updatedAt = now, processingStartedAt = None,
                  completedAt = None\<rparr>;
          s1 = s\<lparr>jobs := AList.update (c_jobId input) job (jobs s)\<rparr>;
          s2 = emit (jobChannel (c_jobId input)) (Typed ''created'' job) s1;
          s3 = emit ''job:created'' (Plain job) s2
      in (job, s3))"

definition getJob :: "string \<Rightarrow> JobStore \<Rightarrow> Job option" where
  "getJob jid s = map_of (jobs s) jid"

text \<open>The object spread \<open>{...job, ...updates, updatedAt: new Date()}\<close>.\<close>

definition override :: "'a \<Rightarrow> 'a option \<Rightarrow> 'a" where
  "override old upd = (case upd of None \<Rightarrow> old | Some v \<Rightarrow> v)"

definition override_opt :: "'a option \<Rightarrow> 'a option \<Rightarrow> 'a option" where
  "override_opt old upd = (case upd of None \<Rightarrow> old | Some v \<Rightarrow> Some v)"

definition applyUpdates :: "Job \<Rightarrow> UpdateJobInput \<Rightarrow> int \<Rightarrow> Job" where
  "applyUpdates job updates now =
     job\<lparr>status := override (status job) (u_status updates),
         progress := override (progress job) (u_progress updates),
         downloadUrl := override_opt (downloadUrl job) (u_downloadUrl updates),
         s3Key := override_opt (s3Key job) (u_s3Key updates),
         error := override_opt (error job) (u_error updates),
         processingStartedAt :=
           override_opt (processingStartedAt job) (u_processingStartedAt updates),
         completedAt := override_opt (completedAt job) (u_completedAt updates),
         updatedAt := now\<rparr>"

definition updateJob :: "string \<Rightarrow> UpdateJobInput \<Rightarrow> int \<Rightarrow> JobStore \<Rightarrow> Job option \<times> JobStore" where
  "updateJob jid updates now s =
     (case map_of (jobs s) jid of
        None \<Rightarrow> (None, s)
      | Some job \<Rightarrow>
          (let updatedJob = applyUpdates job updates now;
               s1 = s\<lparr>jobs := AList.update jid updatedJob (jobs s)\<rparr>;
               s2 = emit (jobChannel jid) (Typed ''updated'' updatedJob) s1;
               s3 = (if status updatedJob = Ready then
                       emit ''job:completed'' (Plain updatedJob)
                         (emit (jobChannel jid) (Typed ''completed'' updatedJob) s2)
                     else if status updatedJob = Failed then
                       emit ''job:failed'' (Plain updatedJob)
                         (emit (jobChannel jid) (Typed ''failed'' updatedJob) s2)
                     else s2)
           in (Some updatedJob, s3)))"

definition deleteJob :: "string \<Rightarrow> JobStore \<Rightarrow> bool \<times> JobStore" where
  "deleteJob jid s =
     (map_of (jobs s) jid \<noteq> None, s\<lparr>jobs := AList.delete jid (jobs s)\<rparr>)"

definition getAllJobs :: "JobStore \<Rightarrow> Job list" where
  "getAllJobs s = map snd (jobs s)"

definition getJobsByStatus :: "JobStatus \<Rightarrow> JobStore \<Rightarrow> Job list" where
  "getJobsByStatus st s = filter (\<lambda>job. status job = st) (map snd (jobs s))"

record JobStats =
  total :: nat
  queued :: nat
  processing :: nat
  ready :: nat
  failed :: nat

definition getStats :: "JobStore \<Rightarrow> JobStats" where
  "getStats s =
     (let js = getAllJobs s
      in \<lparr>total = length js,
          queued = length (filter (\<lambda>j. status j = Queued) js),
          processing = length (filter (\<lambda>j. status j = Processing) js),
          ready = length (filter (\<lambda>j. status j = Ready) js),
          failed = length (filter (\<lambda>j. status j = Failed) js)\<rparr>)"

text \<open>
  \<open>cleanup\<close> walks the entries of the map and deletes the current entry when it is
  terminal and old. Deleting the current entry of a \<open>Map\<close> during its iteration skips
  nothing, so the walk visits every entry the map had at the start.
\<close>

definition expired :: "int \<Rightarrow> int \<Rightarrow> Job \<Rightarrow> bool" where
  "expired now maxAgeMs job \<longleftrightarrow>
     (status job = Ready \<or> status job = Failed) \<and> now - updatedAt job > maxAgeMs"

fun cleanupLoop :: "int \<Rightarrow> int \<Rightarrow> (string \<times> Job) list \<Rightarrow> (string \<times> Job) list \<Rightarrow> nat
    \<Rightarrow> (string \<times> Job) list \<times> nat" where
  "cleanupLoop now maxAgeMs [] js cleaned = (js, cleaned)"
| "cleanupLoop now maxAgeMs ((jid, job) # es) js cleaned =
     (if expired now maxAgeMs job
      then cleanupLoop now maxAgeMs es (AList.delete jid js) (cleaned + 1)
      else cleanupLoop now maxAgeMs es js cleaned)"

definition cleanup :: "int \<Rightarrow> int \<Rightarrow> JobStore \<Rightarrow> nat \<times> JobStore" where
  "cleanup maxAgeMs now s =
     (let (js, cleaned) = cleanupLoop now maxAgeMs (jobs s) (jobs s) 0
      in (cleaned, s\<lparr>jobs := js\<rparr>))"

section \<open>Download worker (src/jobs/downloadWorker.ts)\<close>

text \<open>
  A value that was thrown: an \<open>Error\<close> with its message, or anything else.
\<close>

datatype thrown = Error string | Thrown

record QueueJob =
  q_jobId :: string
  q_fileIds :: "int list"
  addedAt :: int
  attempts :: nat

text \<open>
  What the worker calls and this repository does not define. \<open>uploadFile\<close> and
  \<open>generatePresignedUrl\<close> are the two methods of \<open>s3Service\<close>: each call resolves
  (\<open>Inr\<close>) or rejects (\<open>Inl\<close>), and what it does may differ from one attempt of the
  queue entry to the next, so the attempt number is its first argument.
\<close>

record externals =
  uploadFile :: "nat \<Rightarrow> int \<Rightarrow> thrown + (string \<times> nat)"
  generatePresignedUrl :: "nat \<Rightarrow> string \<Rightarrow> thrown + string"

definition PARALLEL_FILE_BATCH_SIZE :: nat where
  "PARALLEL_FILE_BATCH_SIZE = 3"

text \<open>\<open>processFile\<close> waits (a delay only) and uploads.\<close>

definition processFile :: "externals \<Rightarrow> nat \<Rightarrow> int \<Rightarrow> thrown + (string \<times> nat)" where
  "processFile ext attempt fileId = uploadFile ext attempt fileId"

text \<open>\<open>Array.prototype.slice(i, j)\<close> for \<open>0 \<le> i \<le> j\<close>.\<close>

definition slice :: "'a list \<Rightarrow> nat \<Rightarrow> nat \<Rightarrow> 'a list" where
  "slice xs i j = take (j - i) (drop i xs)"

text \<open>
  \<open>Promise.all\<close>: the results in order when every promise resolves, otherwise a
  rejection. The promises of a batch run concurrently and the rejection reported is the
  earliest in time; timing is not modelled, and the model reports the first one in the
  order of the batch.
\<close>

fun promiseAll :: "(thrown + 'a) list \<Rightarrow> thrown + 'a list" where
  "promiseAll [] = Inr []"
| "promiseAll (r # rs) =
     (case r of
        Inl e \<Rightarrow> Inl e
      | Inr v \<Rightarrow> (case promiseAll rs of Inl e \<Rightarrow> Inl e | Inr vs \<Rightarrow> Inr (v # vs)))"

definition processBatch :: "externals \<Rightarrow> nat \<Rightarrow> int list \<Rightarrow> thrown + string list" where
  "processBatch ext attempt batch =
     promiseAll (map (\<lambda>fileId. map_sum id fst (processFile ext attempt fileId)) batch)"

subsection \<open>The progress percentage\<close>

text \<open>
  \<open>Math.round((processedCount / totalFiles) * 100)\<close> is a computation on JavaScript
  numbers, IEEE 754 doubles: the quotient of the two counts is rounded to a double, its
  product with 100 is rounded to a double, and \<open>Math.round\<close> takes that double to the
  nearest integer, a tie upwards. The two counts are lengths of arrays, below \<open>2^32\<close>,
  and are doubles as they stand.

  A positive double is \<open>m * 2^(e - 52)\<close> with a significand \<open>2^52 \<le> m < 2^53\<close>.
  \<open>exponent x\<close> is the \<open>e\<close> with \<open>2^e \<le> x < 2^(e + 1)\<close>, found from the bit
  lengths of numerator and denominator, and \<open>toDouble\<close> rounds a rational number to the
  nearest double, a tie to the even significand, as division and multiplication of
  doubles do with their exact result. The exponent is not bounded here: the numbers that
  occur, the quotient of a count by the total and its product with 100, are zero or
  between \<open>2^(-32)\<close> and 100, where every double is a normal one. The loop computes
  the percentage only when \<open>totalFiles\<close> is not zero.
\<close>

definition roundNearestEven :: "rat \<Rightarrow> int" where
  "roundNearestEven x =
     (let f = \<lfloor>x\<rfloor>; r = x - of_int f
      in if r < 1 / 2 then f else if 1 / 2 < r then f + 1 else if even f then f else f + 1)"

function bitLength :: "int \<Rightarrow> int" where
  "bitLength n = (if n \<le> 0 then 0 else 1 + bitLength (n div 2))"
  by pat_completeness auto
termination
  by (relation "measure nat") auto

declare bitLength.simps [simp del]

definition exponent :: "rat \<Rightarrow> int" where
  "exponent x =
     (let (n, d) = quotient_of x; e = bitLength n - bitLength d
      in if 2 powi e \<le> x then e else e - 1)"

definition roundToDouble :: "rat \<Rightarrow> rat" where
  "roundToDouble x =
     of_int (roundNearestEven (x / 2 powi (exponent x - 52))) * 2 powi (exponent x - 52)"

definition toDouble :: "rat \<Rightarrow> rat" where
  "toDouble x = (if x = 0 then 0 else if x < 0 then - roundToDouble (- x) else roundToDouble x)"

definition mathRound :: "rat \<Rightarrow> int" where
  "mathRound x = \<lfloor>x + 1 / 2\<rfloor>"

definition roundPercent :: "nat \<Rightarrow> nat \<Rightarrow> int" where
  "roundPercent processedCount totalFiles =
     mathRound (toDouble (toDouble (of_nat processedCount / of_nat totalFiles) * 100))"

subsection \<open>The batches\<close>

text \<open>
  The loop \<open>for (let i = 0; i < totalFiles; i += PARALLEL_FILE_BATCH_SIZE)\<close> from
  index \<open>i\<close> on, with \<open>processedS3Keys\<close> and \<open>processedCount\<close> as they stand. A
  rejected batch leaves the loop with the thrown value.
\<close>

function processBatches :: "externals \<Rightarrow> QueueJob \<Rightarrow> int \<Rightarrow> nat \<Rightarrow> string list \<Rightarrow> nat \<Rightarrow> JobStore
    \<Rightarrow> (thrown + string list) \<times> JobStore" where
  "processBatches ext qj now i processedS3Keys processedCount s =
     (if i < length (q_fileIds qj) then
        (case processBatch ext (attempts qj)
                (slice (q_fileIds qj) i (i + PARALLEL_FILE_BATCH_SIZE)) of
           Inl e \<Rightarrow> (Inl e, s)
         | Inr batchResults \<Rightarrow>
             processBatches ext qj now (i + PARALLEL_FILE_BATCH_SIZE)
               (processedS3Keys @ batchResults)
               (processedCount
                  + length (slice (q_fileIds qj) i (i + PARALLEL_FILE_BATCH_SIZE)))
               (snd (updateJob (q_jobId qj)
                       (noUpdates\<lparr>u_progress :=
                          Some (roundPercent
                                  (processedCount
                                     + length (slice (q_fileIds qj) i
                                                 (i + PARALLEL_FILE_BATCH_SIZE)))
                                  (length (q_fileIds qj)))\<rparr>)
                       now s)))
      else (Inr processedS3Keys, s))"
  by pat_completeness auto
termination
  by (relation "measure (\<lambda>(ext, qj, now, i, ks, c, s). length (q_fileIds qj) - i)")
     (auto simp: PARALLEL_FILE_BATCH_SIZE_def)

declare processBatches.simps [simp del]

text \<open>The body of the \<open>try\<close> block of \<open>processDownloadJob\<close>.\<close>

definition tryBlock :: "externals \<Rightarrow> QueueJob \<Rightarrow> int \<Rightarrow> JobStore \<Rightarrow> (thrown + unit) \<times> JobStore" where
  "tryBlock ext qj now s =
     (case processBatches ext qj now 0 [] 0 s of
        (Inl e, s1) \<Rightarrow> (Inl e, s1)
      | (Inr processedS3Keys, s1) \<Rightarrow>
          (let finalS3Key =
                 (if length processedS3Keys > 0 then last processedS3Keys
                  else ''downloads/'' @ q_jobId qj @ ''.zip'')
           in case generatePresignedUrl ext (attempts qj) finalS3Key of
                Inl e \<Rightarrow> (Inl e, s1)
              | Inr url \<Rightarrow>
                  (Inr (),
                   snd (updateJob (q_jobId qj)
                          (noUpdates\<lparr>u_status := Some Ready, u_progress := Some 100,
                             u_downloadUrl := Some url, u_completedAt := Some now\<rparr>)
                          now s1))))"

definition errorMessage :: "thrown \<Rightarrow> string" where
  "errorMessage e = (case e of Error m \<Rightarrow> m | Thrown \<Rightarrow> ''Unknown error'')"

text \<open>
  One attempt of the worker on a queue entry: \<open>Inr ()\<close> when the promise resolves,
  \<open>Inl e\<close> when it rejects with \<open>e\<close>. The attempt reads the clock several times;
  \<open>now\<close> stands for each of these readings.
\<close>

definition processDownloadJob :: "externals \<Rightarrow> QueueJob \<Rightarrow> int \<Rightarrow> JobStore \<Rightarrow> (thrown + unit) \<times> JobStore" where
  "processDownloadJob ext qj now s =
     (case getJob (q_jobId qj) s of
        None \<Rightarrow> (Inl (Error (''Job not found: '' @ q_jobId qj)), s)
      | Some job \<Rightarrow>
          (let s1 = snd (updateJob (q_jobId qj)
                           (noUpdates\<lparr>u_status := Some Processing, u_progress := Some 0,
                              u_processingStartedAt := Some now\<rparr>)
                           now s)
           in case tryBlock ext qj now s1 of
                (Inr u, s2) \<Rightarrow> (Inr u, s2)
              | (Inl e, s2) \<Rightarrow>
                  (Inl e,
                   snd (updateJob (q_jobId qj)
                          (noUpdates\<lparr>u_status := Some Failed,
                             u_error := Some (errorMessage e),
                             u_completedAt := Some now\<rparr>)
                          now s2))))"

section \<open>Queue (class SimpleQueue)\<close>

text \<open>
  \<open>handler\<close> says whether a handler is registered. \<open>inflight\<close> is not a field of the
  class: it lists the entries whose handler invocation has started and has not settled
  yet, each with the \<open>attempts\<close> it was started with. \<open>qevents\<close> is what the queue
  emitted, each event with the entry as it was then. The concurrency and the retry limit
  are counts, so natural numbers; the private field \<open>processing\<close>, which no method
  reads, is left out.
\<close>

record SimpleQueue =
  queue :: "QueueJob list"
  handler :: bool
  concurrency :: nat
  activeJobs :: int
  maxRetries :: nat
  isRunning :: bool
  inflight :: "QueueJob list"
  qevents :: "(string \<times> QueueJob option) list"

definition newSimpleQueue :: "nat option \<Rightarrow> nat option \<Rightarrow> SimpleQueue" where
  "newSimpleQueue concurrencyOpt maxRetriesOpt =
     \<lparr>queue = [], handler = False,
      concurrency = (case concurrencyOpt of None \<Rightarrow> 1 | Some c \<Rightarrow> c),
      activeJobs = 0,
      maxRetries = (case maxRetriesOpt of None \<Rightarrow> 3 | Some m \<Rightarrow> m),
      isRunning = False, inflight = [], qevents = []\<rparr>"

definition downloadQueue :: SimpleQueue where
  "downloadQueue = newSimpleQueue (Some 5) (Some 3)"

definition qemit :: "string \<Rightarrow> QueueJob option \<Rightarrow> SimpleQueue \<Rightarrow> SimpleQueue" where
  "qemit name p q = q\<lparr>qevents := qevents q @ [(name, p)]\<rparr>"

text \<open>
  \<open>processJob\<close> up to its \<open>await this.handler(job)\<close>: this part runs inside the loop of
  \<open>tryProcess\<close>, before the loop tests its condition again.
\<close>

definition processJobStart :: "QueueJob \<Rightarrow> SimpleQueue \<Rightarrow> SimpleQueue" where
  "processJobStart job q =
     (if \<not> handler q then q
      else (let job1 = job\<lparr>attempts := attempts job + 1\<rparr>
            in qemit ''job:processing'' (Some job1)
                 (q\<lparr>activeJobs := activeJobs q + 1, inflight := inflight q @ [job1]\<rparr>)))"

function tryProcessLoop :: "SimpleQueue \<Rightarrow> SimpleQueue" where
  "tryProcessLoop q =
     (if activeJobs q < int (concurrency q) \<and> length (queue q) > 0
      then tryProcessLoop (processJobStart (hd (queue q)) (q\<lparr>queue := tl (queue q)\<rparr>))
      else q)"
  by pat_completeness auto
termination
  by (relation "measure (\<lambda>q. length (queue q))")
     (auto simp: processJobStart_def qemit_def Let_def)

declare tryProcessLoop.simps [simp del]

definition tryProcess :: "SimpleQueue \<Rightarrow> SimpleQueue" where
  "tryProcess q = (if \<not> isRunning q \<or> \<not> handler q then q else tryProcessLoop q)"

definition add :: "string \<Rightarrow> int list \<Rightarrow> int \<Rightarrow> SimpleQueue \<Rightarrow> QueueJob \<times> SimpleQueue" where
  "add jid fids now q =
     (let job = \<lparr>q_jobId = jid, q_fileIds = fids, addedAt = now, attempts = 0\<rparr>
      in (job, tryProcess (qemit ''job:added'' (Some job) (q\<lparr>queue := queue q @ [job]\<rparr>))))"

text \<open>\<open>process(handler)\<close>: registers the handler and starts the queue.\<close>

definition process :: "SimpleQueue \<Rightarrow> SimpleQueue" where
  "process q = tryProcess (q\<lparr>handler := True, isRunning := True\<rparr>)"

text \<open>
  \<open>processJob\<close> from the moment the handler's promise settles for the in-flight entry
  \<open>job\<close>: the \<open>try\<close> or the \<open>catch\<close> branch, then \<open>finally\<close>.
\<close>

definition processJobFinish :: "QueueJob \<Rightarrow> thrown + unit \<Rightarrow> SimpleQueue \<Rightarrow> SimpleQueue" where
  "processJobFinish job outcome q =
     (let q1 = (case outcome of
                  Inr u \<Rightarrow> qemit ''job:completed'' (Some job) q
                | Inl e \<Rightarrow>
                    (if attempts job < maxRetries q
                     then qemit ''job:retry'' (Some job) (q\<lparr>queue := queue q @ [job]\<rparr>)
                     else qemit ''job:failed'' (Some job) q))
      in tryProcess (q1\<lparr>activeJobs := activeJobs q1 - 1,
                        inflight := remove1 job (inflight q1)\<rparr>))"

definition pause :: "SimpleQueue \<Rightarrow> SimpleQueue" where
  "pause q = qemit ''queue:paused'' None (q\<lparr>isRunning := False\<rparr>)"

definition resume :: "SimpleQueue \<Rightarrow> SimpleQueue" where
  "resume q = tryProcess (qemit ''queue:resumed'' None (q\<lparr>isRunning := True\<rparr>))"

definition stop :: "SimpleQueue \<Rightarrow> SimpleQueue" where
  "stop q = qemit ''queue:stopped'' None (q\<lparr>isRunning := False, queue := []\<rparr>)"

text \<open>
  \<open>shutdown\<close> stops the queue at once and, when no invocation is active any more or
  the timeout has passed, empties the pending list.
\<close>

definition shutdownBegin :: "SimpleQueue \<Rightarrow> SimpleQueue" where
  "shutdownBegin q = q\<lparr>isRunning := False\<rparr>"

definition shutdownEnd :: "SimpleQueue \<Rightarrow> SimpleQueue" where
  "shutdownEnd q = qemit ''queue:shutdown'' None (q\<lparr>queue := []\<rparr>)"

text \<open>
  The states a queue built with the given options can be in: every public method may be
  called at any moment, and any in-flight invocation may settle, either way, at any
  moment.
\<close>

inductive reachable :: "nat option \<Rightarrow> nat option \<Rightarrow> SimpleQueue \<Rightarrow> bool"
  for copt :: "nat option" and mopt :: "nat option" where
  r_new: "reachable copt mopt (newSimpleQueue copt mopt)"
| r_add: "reachable copt mopt q \<Longrightarrow> reachable copt mopt (snd (add jid fids now q))"
| r_process: "reachable copt mopt q \<Longrightarrow> reachable copt mopt (process q)"
| r_settle: "reachable copt mopt q \<Longrightarrow> job \<in> set (inflight q)
      \<Longrightarrow> reachable copt mopt (processJobFinish job outcome q)"
| r_pause: "reachable copt mopt q \<Longrightarrow> reachable copt mopt (pause q)"
| r_resume: "reachable copt mopt q \<Longrightarrow> reachable copt mopt (resume q)"
| r_stop: "reachable copt mopt q \<Longrightarrow> reachable copt mopt (stop q)"
| r_shutdownBegin: "reachable copt mopt q \<Longrightarrow> reachable copt mopt (shutdownBegin q)"
| r_shutdownEnd: "reachable copt mopt q \<Longrightarrow> reachable copt mopt (shutdownEnd q)"

section \<open>The worker on the queue\<close>

record System =
  store :: JobStore
  dq :: SimpleQueue

definition queueDownloadJob :: "string \<Rightarrow> int list \<Rightarrow> int \<Rightarrow> System \<Rightarrow> System" where
  "queueDownloadJob jid fids now sys =
     (let s1 = snd (createJob \<lparr>c_jobId = jid, c_fileIds = fids\<rparr> now (store sys));
          q1 = snd (add jid fids now (dq sys))
      in sys\<lparr>store := s1, dq := q1\<rparr>)"

text \<open>
  The oldest in-flight invocation runs the worker and settles. The store updates of one
  invocation are made here in one go, when it settles. In the code the first of them
  (\<open>processing\<close> with progress 0) is made as soon as \<open>processJob\<close> calls the
  handler, inside \<open>add\<close> or \<open>tryProcess\<close>, and the others follow as the uploads
  resolve: between the jobs of different entries the real updates interleave, the
  updates of one job are made in the order they have here.
\<close>

definition settle :: "externals \<Rightarrow> int \<Rightarrow> System \<Rightarrow> System" where
  "settle ext now sys =
     (case inflight (dq sys) of
        [] \<Rightarrow> sys
      | job # rest \<Rightarrow>
          (case processDownloadJob ext job now (store sys) of
             (outcome, s1) \<Rightarrow> sys\<lparr>store := s1, dq := processJobFinish job outcome (dq sys)\<rparr>))"

text \<open>Settle invocations until none is in flight; \<open>None\<close> when the fuel runs out.\<close>

fun run :: "nat \<Rightarrow> externals \<Rightarrow> int \<Rightarrow> System \<Rightarrow> System option" where
  "run 0 ext now sys = (if inflight (dq sys) = [] then Some sys else None)"
| "run (Suc n) ext now sys =
     (if inflight (dq sys) = [] then Some sys else run n ext now (settle ext now sys))"

section \<open>Routes (POST /v1/download/async, GET /v1/download/subscribe/:jobId)\<close>

text \<open>
  \<open>AsyncDownloadRequestSchema\<close>: \<open>file_ids\<close> is an array of 1 to 1000 integers, each
  from 10000 to 100000000. The route's handler runs on a body that passes the schema;
  any other body is answered 400 by the validator and the handler does not run.
\<close>

definition AsyncDownloadRequestSchema :: "int list \<Rightarrow> bool" where
  "AsyncDownloadRequestSchema file_ids \<longleftrightarrow>
     list_all (\<lambda>n. 10000 \<le> n \<and> n \<le> 100000000) file_ids
     \<and> 1 \<le> length file_ids \<and> length file_ids \<le> 1000"

datatype asyncResponse =
  Accepted202 string JobStatus nat string
| InvalidInput400

text \<open>\<open>uuid\<close> is the value of \<open>crypto.randomUUID()\<close>.\<close>

definition asyncDownloadRoute :: "int list \<Rightarrow> string \<Rightarrow> int \<Rightarrow> System \<Rightarrow> asyncResponse \<times> System" where
  "asyncDownloadRoute file_ids uuid now sys =
     (if \<not> AsyncDownloadRequestSchema file_ids then (InvalidInput400, sys)
      else (Accepted202 uuid Queued (length file_ids) (''/v1/download/status/'' @ uuid),
            queueDownloadJob uuid file_ids now sys))"

text \<open>
  The regular expression
  \<open>/^[0-9a-f]{8}-[0-9a-f]{4}-[0-9a-f]{4}-[0-9a-f]{4}-[0-9a-f]{12}$/i\<close>.
\<close>

definition isHexDigit :: "char \<Rightarrow> bool" where
  "isHexDigit c \<longleftrightarrow> c \<in> set ''0123456789abcdefABCDEF''"

definition uuidRegexTest :: "string \<Rightarrow> bool" where
  "uuidRegexTest s \<longleftrightarrow>
     length s = 36
     \<and> list_all isHexDigit (take 8 s) \<and> s ! 8 = CHR ''-''
     \<and> list_all isHexDigit (take 4 (drop 9 s)) \<and> s ! 13 = CHR ''-''
     \<and> list_all isHexDigit (take 4 (drop 14 s)) \<and> s ! 18 = CHR ''-''
     \<and> list_all isHexDigit (take 4 (drop 19 s)) \<and> s ! 23 = CHR ''-''
     \<and> list_all isHexDigit (take 12 (drop 24 s))"

text \<open>
  The answer of the subscribe route: a JSON body with its status code, or an event
  stream that starts with the \<open>connected\<close> frame and listens on the job's stream.
\<close>

datatype subscribeResponse =
  BadRequest400
| NotFound404 string
| Snapshot200 string JobStatus int "string option" "string option"
| StreamSSE string JobStatus int

definition subscribeRoute :: "string \<Rightarrow> JobStore \<Rightarrow> subscribeResponse" where
  "subscribeRoute jid s =
     (if \<not> uuidRegexTest jid then BadRequest400
      else (case getJob jid s of
              None \<Rightarrow> NotFound404 jid
            | Some job \<Rightarrow>
                (if status job = Ready \<or> status job = Failed
                 then Snapshot200 (jobId job) (status job) (progress job)
                        (downloadUrl job) (error job)
                 else StreamSSE (jobId job) (status job) (progress job))))"

section \<open>Reading the stored states of a job off the events\<close>

text \<open>
  Every write of a job into the map, by \<open>createJob\<close> or by \<open>updateJob\<close>, emits one
  \<open>created\<close> or \<open>updated\<close> event with the job as stored on the job's own stream, so
  these events in order are the states the job went through.
\<close>

fun snapshotOf :: "string \<Rightarrow> emitted \<Rightarrow> Job option" where
  "snapshotOf jid (name, Typed t job) =
     (if name = jobChannel jid \<and> (t = ''created'' \<or> t = ''updated'') then Some job else None)"
| "snapshotOf jid (name, Plain job) = None"

definition jobTrace :: "string \<Rightarrow> emitted list \<Rightarrow> Job list" where
  "jobTrace jid evs = List.map_filter (snapshotOf jid) evs"

definition perJobEvents :: "string \<Rightarrow> emitted list \<Rightarrow> emitted list" where
  "perJobEvents jid evs = filter (\<lambda>ev. fst ev = jobChannel jid) evs"

text \<open>
  The events of a job's stream that have a type: the \<open>{type, job}\<close> payloads, which
  only the per-job emissions carry.
\<close>

fun isTyped :: "payload \<Rightarrow> bool" where
  "isTyped (Typed t job) = True"
| "isTyped (Plain job) = False"

definition typedJobEvents :: "string \<Rightarrow> emitted list \<Rightarrow> emitted list" where
  "typedJobEvents jid evs = filter (\<lambda>ev. fst ev = jobChannel jid \<and> isTyped (snd ev)) evs"

definition terminal :: "Job \<Rightarrow> bool" where
  "terminal job \<longleftrightarrow> status job = Ready \<or> status job = Failed"

definition wellFormed :: "JobStore \<Rightarrow> bool" where
  "wellFormed s \<longleftrightarrow> distinct (map fst (jobs s))"

section \<open>Notions used in the statements\<close>

text \<open>What a store emitted after it was the store \<open>s\<close>.\<close>

definition emittedSince :: "JobStore \<Rightarrow> JobStore \<Rightarrow> emitted list" where
  "emittedSince s s' = drop (length (events s)) (events s')"

text \<open>The status and the progress of a stored state.\<close>

definition view :: "Job \<Rightarrow> JobStatus \<times> int" where
  "view job = (status job, progress job)"

text \<open>The progress values of the states of a trace in which the job is not terminal.\<close>

fun nonTerminalProgress :: "(JobStatus \<times> int) list \<Rightarrow> int list" where
  "nonTerminalProgress [] = []"
| "nonTerminalProgress ((st, p) # rest) =
     (if st = Ready \<or> st = Failed then nonTerminalProgress rest
      else p # nonTerminalProgress rest)"

text \<open>
  The values \<open>processedCount\<close> takes after each batch, when the loop is entered at index
  \<open>i\<close> with \<open>processedCount = c\<close> and every batch resolves.
\<close>

function batchCounts :: "nat \<Rightarrow> nat \<Rightarrow> nat \<Rightarrow> nat list" where
  "batchCounts t i c =
     (if i < t then (c + min PARALLEL_FILE_BATCH_SIZE (t - i))
                      # batchCounts t (i + PARALLEL_FILE_BATCH_SIZE)
                          (c + min PARALLEL_FILE_BATCH_SIZE (t - i))
      else [])"
  by pat_completeness auto
termination
  by (relation "measure (\<lambda>(t, i, c). t - i)") (auto simp: PARALLEL_FILE_BATCH_SIZE_def)

declare batchCounts.simps [simp del]


text \<open>The key the download URL is issued for.\<close>

definition finalKey :: "string \<Rightarrow> string list \<Rightarrow> string" where
  "finalKey jid ks = (if length ks > 0 then last ks else ''downloads/'' @ jid @ ''.zip'')"




text \<open>The concurrency a queue is built with, and what holds of it in every state.\<close>

definition configured :: "nat option \<Rightarrow> nat" where
  "configured copt = (case copt of None \<Rightarrow> 1 | Some c \<Rightarrow> c)"

definition queueInv :: "nat \<Rightarrow> SimpleQueue \<Rightarrow> bool" where
  "queueInv c q \<longleftrightarrow>
     activeJobs q = int (length (inflight q)) \<and> activeJobs q \<le> int c \<and> concurrency q = c"

text \<open>The keys that \<open>cleanup\<close> deletes while it walks the entries \<open>es\<close>.\<close>

definition doomed :: "int \<Rightarrow> int \<Rightarrow> (string \<times> Job) list \<Rightarrow> string set" where
  "doomed now m es = set (map fst (filter (\<lambda>e. expired now m (snd e)) es))"

subsection \<open>Concrete stores, queues and storage behaviours\<close>

definition readyJob :: Job where
  "readyJob = \<lparr>jobId = ''j1'', fileIds = [10001], status = Ready, progress = 100,
                downloadUrl = Some ''https://s3.example.com/downloads/10001.zip'',
                s3Key = None, error = None, createdAt = 1, updatedAt = 2,
                processingStartedAt = Some 1, completedAt = Some 2\<rparr>"

definition readyStore :: JobStore where
  "readyStore = \<lparr>jobs = [(''j1'', readyJob)], events = []\<rparr>"

definition processingStore :: JobStore where
  "processingStore =
     \<lparr>jobs = [(''j1'', readyJob\<lparr>status := Processing, progress := 67, downloadUrl := None,
                                completedAt := None\<rparr>)],
      events = []\<rparr>"

definition sweepStore :: JobStore where
  "sweepStore =
     \<lparr>jobs = [(''old-ready'', readyJob\<lparr>jobId := ''old-ready'', updatedAt := 0\<rparr>),
              (''fresh-failed'', readyJob\<lparr>jobId := ''fresh-failed'', status := Failed,
                                   updatedAt := 90\<rparr>),
              (''old-processing'', readyJob\<lparr>jobId := ''old-processing'', status := Processing,
                                     updatedAt := 0\<rparr>)],
      events = []\<rparr>"

definition queuedStore :: JobStore where
  "queuedStore =
     snd (createJob \<lparr>c_jobId = ''j1'', c_fileIds = [10001, 10002, 10003, 10004]\<rparr> 0 newJobStore)"

definition fourFiles :: QueueJob where
  "fourFiles = \<lparr>q_jobId = ''j1'', q_fileIds = [10001, 10002, 10003, 10004], addedAt = 0,
                 attempts = 2\<rparr>"


definition flakyStorage :: externals where
  "flakyStorage =
     \<lparr>uploadFile = (\<lambda>attempt fileId.
         if attempt = 1 \<and> fileId = 10004 then Inl (Error ''S3 upload failed: timeout'')
         else Inr (''downloads/file.zip'', 2048)),
      generatePresignedUrl = (\<lambda>attempt key. Inr (''https://s3.example.com/'' @ key))\<rparr>"


text \<open>The singleton queue with the worker registered, and an empty store.\<close>

definition idleSystem :: System where
  "idleSystem = \<lparr>store = newJobStore, dq = process downloadQueue\<rparr>"

text \<open>
  The states job \<open>job-1\<close> goes through when it is submitted with four files to the idle
  system and the storage rejects file 10004 on the first attempt.
\<close>

definition retriedTrace :: "(JobStatus \<times> int) list" where
  "retriedTrace =
     (case run 2 flakyStorage 0
             (queueDownloadJob ''job-1'' [10001, 10002, 10003, 10004] 0 idleSystem) of
        None \<Rightarrow> []
      | Some sys \<Rightarrow> map view (jobTrace ''job-1'' (events (store sys))))"




text \<open>A queue of concurrency 2 after three entries were added.\<close>

definition busyQueue :: SimpleQueue where
  "busyQueue =
     snd (add ''c'' [10003] 0 (snd (add ''b'' [10002] 0 (snd (add ''a'' [10001] 0
       (process (newSimpleQueue (Some 2) None)))))))"

definition someUuid :: string where
  "someUuid = ''123e4567-e89b-12d3-a456-426614174000''"

section \<open>The job store\<close>

lemma getJob_emit [simp]: "getJob jid (emit n p s) = getJob jid s"
  by (simp add: getJob_def emit_def)

lemma jobs_emit [simp]: "jobs (emit n p s) = jobs s"
  by (simp add: emit_def)

lemma events_emit [simp]: "events (emit n p s) = events s @ [(n, p)]"
  by (simp add: emit_def)

lemma updateJob_result:
  assumes "getJob jid s = Some job"
  shows "fst (updateJob jid u now s) = Some (applyUpdates job u now)"
  using assms by (simp add: updateJob_def getJob_def Let_def)

lemma updateJob_jobs:
  assumes "getJob jid s = Some job"
  shows "jobs (snd (updateJob jid u now s)) = AList.update jid (applyUpdates job u now) (jobs s)"
  using assms by (simp add: updateJob_def getJob_def Let_def)

lemma updateJob_events:
  assumes "getJob jid s = Some job"
  shows "events (snd (updateJob jid u now s)) =
         events s @ (jobChannel jid, Typed ''updated'' (applyUpdates job u now)) #
           (if status (applyUpdates job u now) = Ready then
              [(jobChannel jid, Typed ''completed'' (applyUpdates job u now)),
               (''job:completed'', Plain (applyUpdates job u now))]
            else if status (applyUpdates job u now) = Failed then
              [(jobChannel jid, Typed ''failed'' (applyUpdates job u now)),
               (''job:failed'', Plain (applyUpdates job u now))]
            else [])"
  using assms by (simp add: updateJob_def getJob_def Let_def)

lemma getJob_updateJob_same:
  assumes "getJob jid s = Some job"
  shows "getJob jid (snd (updateJob jid u now s)) = Some (applyUpdates job u now)"
  using updateJob_jobs [OF assms] by (simp add: getJob_def update_conv')


text \<open>Every operation of the store keeps each key once in the map.\<close>

lemma wellFormed_new: "wellFormed newJobStore"
  by (simp add: wellFormed_def newJobStore_def)

lemma wellFormed_createJob: "wellFormed s \<Longrightarrow> wellFormed (snd (createJob input now s))"
  by (simp add: wellFormed_def createJob_def Let_def distinct_update)

lemma wellFormed_updateJob: "wellFormed s \<Longrightarrow> wellFormed (snd (updateJob jid updates now s))"
  by (cases "map_of (jobs s) jid")
    (simp_all add: wellFormed_def updateJob_def Let_def distinct_update)

lemma wellFormed_deleteJob: "wellFormed s \<Longrightarrow> wellFormed (snd (deleteJob jid s))"
  by (simp add: wellFormed_def deleteJob_def distinct_delete)

lemma emittedSince_append: "events s' = events s @ evs \<Longrightarrow> emittedSince s s' = evs"
  by (simp add: emittedSince_def)

text \<open>
  C10. For a job id that is not in the store, \<open>updateJob\<close> returns \<open>undefined\<close> and the
  store, its map of jobs and its emitted events, is exactly what it was: no job is
  created and no event is emitted.
\<close>

theorem updateJob_unknown_id:
  assumes "getJob jid s = None"
  shows "updateJob jid updates now s = (None, s)"
  using assms by (simp add: updateJob_def getJob_def)

theorem updateJob_unknown_id_witness:
  "getJob ''nope'' newJobStore = None
   \<and> updateJob ''nope'' (noUpdates\<lparr>u_progress := Some 50\<rparr>) 7 newJobStore = (None, newJobStore)"
proof -
  have h: "getJob ''nope'' newJobStore = None"
    by (simp add: getJob_def newJobStore_def)
  show ?thesis
    using h updateJob_unknown_id [OF h, of "noUpdates\<lparr>u_progress := Some 50\<rparr>" 7] by simp
qed

text \<open>
  C1, as the code has it. \<open>updateJob\<close> does not look at the status of the stored job:
  on every job that is in the store, terminal or not, it stores and returns the job with
  each field that the update carries replaced and \<open>updatedAt\<close> set to the time of the
  call. Only \<open>jobId\<close>, \<open>fileIds\<close> and \<open>createdAt\<close>, which no update carries, stay as
  they were.
\<close>

theorem updateJob_applies_whatever_status:
  assumes "getJob jid s = Some job"
  shows "fst (updateJob jid updates now s) = Some (applyUpdates job updates now)
     \<and> getJob jid (snd (updateJob jid updates now s)) = Some (applyUpdates job updates now)
     \<and> status (applyUpdates job updates now)
         = (case u_status updates of None \<Rightarrow> status job | Some st \<Rightarrow> st)
     \<and> progress (applyUpdates job updates now)
         = (case u_progress updates of None \<Rightarrow> progress job | Some p \<Rightarrow> p)
     \<and> updatedAt (applyUpdates job updates now) = now
     \<and> jobId (applyUpdates job updates now) = jobId job
     \<and> fileIds (applyUpdates job updates now) = fileIds job
     \<and> createdAt (applyUpdates job updates now) = createdAt job"
  using updateJob_result [OF assms] getJob_updateJob_same [OF assms]
  by (simp add: applyUpdates_def override_def)

theorem updateJob_applies_whatever_status_witness:
  "getJob ''j1'' readyStore = Some readyJob \<and> status readyJob = Ready
   \<and> getJob ''j1'' (snd (updateJob ''j1'' (noUpdates\<lparr>u_progress := Some 5\<rparr>) 9 readyStore))
       = Some (applyUpdates readyJob (noUpdates\<lparr>u_progress := Some 5\<rparr>) 9)
   \<and> progress (applyUpdates readyJob (noUpdates\<lparr>u_progress := Some 5\<rparr>) 9) = 5
   \<and> updatedAt (applyUpdates readyJob (noUpdates\<lparr>u_progress := Some 5\<rparr>) 9) = 9"
proof -
  have h: "getJob ''j1'' readyStore = Some readyJob"
    by (simp add: getJob_def readyStore_def)
  have st: "status readyJob = Ready" by (simp add: readyJob_def)
  show ?thesis
    using h st updateJob_applies_whatever_status [OF h, of "noUpdates\<lparr>u_progress := Some 5\<rparr>" 9]
    by (simp add: noUpdates_def)
qed

text \<open>
  A job that is \<open>ready\<close> is put back to \<open>processing\<close> with progress 0 by an update
  that says so: the stored job is not the one that was there.
\<close>

theorem updateJob_terminal_counterexample:
  "status readyJob = Ready \<and> getJob ''j1'' readyStore = Some readyJob
   \<and> getJob ''j1'' (snd (updateJob ''j1''
        (noUpdates\<lparr>u_status := Some Processing, u_progress := Some 0\<rparr>) 3 readyStore))
     = Some (readyJob\<lparr>status := Processing, progress := 0, updatedAt := 3\<rparr>)
   \<and> readyJob\<lparr>status := Processing, progress := 0, updatedAt := 3\<rparr> \<noteq> readyJob"
  by (simp add: readyJob_def readyStore_def getJob_def updateJob_def Let_def applyUpdates_def
      override_def override_opt_def noUpdates_def emit_def)

text \<open>
  C3, as the code has it. A call of \<open>updateJob\<close> on a job that is in the store emits
  the \<open>updated\<close> event on the job's stream and, when the status of the job as stored is
  \<open>ready\<close> (or \<open>failed\<close>), a \<open>completed\<close> (or \<open>failed\<close>) event on the job's stream
  as well, followed by one with the bare job on the global stream \<open>job:completed\<close> (or
  \<open>job:failed\<close>). So, whatever the job id, the job's stream gets one typed event when
  the job is stored as \<open>queued\<close> or \<open>processing\<close> and two when it is stored as
  \<open>ready\<close> or \<open>failed\<close>. When the job id is neither \<open>completed\<close> nor \<open>failed\<close>
  these are all the events on the job's stream (for these two ids the job's stream
  \<open>job:id\<close> is one of the global streams).
\<close>

theorem updateJob_emits:
  assumes "getJob jid s = Some job"
  shows "emittedSince s (snd (updateJob jid updates now s)) =
           (jobChannel jid, Typed ''updated'' (applyUpdates job updates now)) #
             (if status (applyUpdates job updates now) = Ready then
                [(jobChannel jid, Typed ''completed'' (applyUpdates job updates now)),
                 (''job:completed'', Plain (applyUpdates job updates now))]
              else if status (applyUpdates job updates now) = Failed then
                [(jobChannel jid, Typed ''failed'' (applyUpdates job updates now)),
                 (''job:failed'', Plain (applyUpdates job updates now))]
              else [])
     \<and> length (typedJobEvents jid (emittedSince s (snd (updateJob jid updates now s))))
         = (if status (applyUpdates job updates now) = Ready
               \<or> status (applyUpdates job updates now) = Failed then 2 else 1)
     \<and> (jid \<noteq> ''completed'' \<and> jid \<noteq> ''failed'' \<longrightarrow>
          perJobEvents jid (emittedSince s (snd (updateJob jid updates now s)))
            = typedJobEvents jid (emittedSince s (snd (updateJob jid updates now s)))
          \<and> length (perJobEvents jid (emittedSince s (snd (updateJob jid updates now s))))
            = (if status (applyUpdates job updates now) = Ready
                  \<or> status (applyUpdates job updates now) = Failed then 2 else 1))"
proof -
  have e: "emittedSince s (snd (updateJob jid updates now s)) =
           (jobChannel jid, Typed ''updated'' (applyUpdates job updates now)) #
             (if status (applyUpdates job updates now) = Ready then
                [(jobChannel jid, Typed ''completed'' (applyUpdates job updates now)),
                 (''job:completed'', Plain (applyUpdates job updates now))]
              else if status (applyUpdates job updates now) = Failed then
                [(jobChannel jid, Typed ''failed'' (applyUpdates job updates now)),
                 (''job:failed'', Plain (applyUpdates job updates now))]
              else [])"
    by (rule emittedSince_append [OF updateJob_events [OF assms]])
  show ?thesis
    unfolding e by (simp add: perJobEvents_def typedJobEvents_def jobChannel_def)
qed

theorem updateJob_emits_witness:
  "getJob ''j1'' processingStore \<noteq> None
   \<and> length (perJobEvents ''j1'' (emittedSince processingStore
        (snd (updateJob ''j1'' (noUpdates\<lparr>u_progress := Some 100\<rparr>) 3 processingStore)))) = 1
   \<and> length (perJobEvents ''j1'' (emittedSince processingStore
        (snd (updateJob ''j1'' (noUpdates\<lparr>u_status := Some Failed\<rparr>) 3 processingStore)))) = 2
   \<and> length (typedJobEvents ''j1'' (emittedSince processingStore
        (snd (updateJob ''j1'' (noUpdates\<lparr>u_status := Some Failed\<rparr>) 3 processingStore)))) = 2"
proof -
  let ?job = "readyJob\<lparr>status := Processing, progress := 67, downloadUrl := None,
                       completedAt := None\<rparr>"
  have h: "getJob ''j1'' processingStore = Some ?job"
    by (simp add: getJob_def processingStore_def)
  have n: "''j1'' \<noteq> ''completed'' \<and> ''j1'' \<noteq> ''failed''" by simp
  note t1 = updateJob_emits [OF h, of "noUpdates\<lparr>u_progress := Some 100\<rparr>" 3,
      THEN conjunct2, THEN conjunct2, THEN mp, OF n, THEN conjunct2]
  note t2 = updateJob_emits [OF h, of "noUpdates\<lparr>u_status := Some Failed\<rparr>" 3,
      THEN conjunct2, THEN conjunct2, THEN mp, OF n, THEN conjunct2]
  note t3 = updateJob_emits [OF h, of "noUpdates\<lparr>u_status := Some Failed\<rparr>" 3,
      THEN conjunct2, THEN conjunct1]
  have c1: "length (perJobEvents ''j1'' (emittedSince processingStore
        (snd (updateJob ''j1'' (noUpdates\<lparr>u_progress := Some 100\<rparr>) 3 processingStore)))) = 1"
    unfolding t1 by (simp add: applyUpdates_def noUpdates_def override_def)
  have c2: "length (perJobEvents ''j1'' (emittedSince processingStore
        (snd (updateJob ''j1'' (noUpdates\<lparr>u_status := Some Failed\<rparr>) 3 processingStore)))) = 2"
    unfolding t2 by (simp add: applyUpdates_def noUpdates_def override_def)
  have c3: "length (typedJobEvents ''j1'' (emittedSince processingStore
        (snd (updateJob ''j1'' (noUpdates\<lparr>u_status := Some Failed\<rparr>) 3 processingStore)))) = 2"
    unfolding t3 by (simp add: applyUpdates_def noUpdates_def override_def)
  from h c1 c2 c3 show ?thesis by simp
qed

text \<open>The update that completes a job emits two events on the job's stream.\<close>

theorem updateJob_two_events_counterexample:
  "getJob ''j1'' processingStore \<noteq> None
   \<and> length (perJobEvents ''j1'' (emittedSince processingStore
        (snd (updateJob ''j1''
               (noUpdates\<lparr>u_status := Some Ready, u_progress := Some 100,
                  u_downloadUrl := Some ''https://s3.example.com/downloads/10001.zip''\<rparr>)
               3 processingStore)))) = 2"
  by (simp add: readyJob_def processingStore_def getJob_def updateJob_def Let_def applyUpdates_def
      override_def override_opt_def noUpdates_def perJobEvents_def jobChannel_def emit_def
      emittedSince_def)

subsection \<open>Cleanup\<close>

lemma doomed_Nil: "doomed now m [] = {}"
  by (simp add: doomed_def)

lemma doomed_Cons:
  "doomed now m ((k, j) # es) = (if expired now m j then insert k (doomed now m es) else doomed now m es)"
  by (simp add: doomed_def)

lemma delete_filter: "AList.delete k js = filter (\<lambda>e. fst e \<noteq> k) js"
  by (induction js) auto

lemma cleanupLoop_filter:
  "cleanupLoop now m es js c =
     (filter (\<lambda>e. fst e \<notin> doomed now m es) js,
      c + length (filter (\<lambda>e. expired now m (snd e)) es))"
proof (induction es arbitrary: js c)
  case Nil
  show ?case by (simp add: doomed_Nil)
next
  case (Cons e es)
  obtain k j where e: "e = (k, j)" by (cases e)
  show ?case
  proof (cases "expired now m j")
    case True
    have "filter (\<lambda>e. fst e \<notin> doomed now m es) (filter (\<lambda>e. fst e \<noteq> k) js)
        = filter (\<lambda>e. fst e \<notin> insert k (doomed now m es)) js"
      unfolding filter_filter by (rule filter_cong [OF refl]) blast
    then show ?thesis
      unfolding e cleanupLoop.simps doomed_Cons Cons.IH delete_filter using True by simp
  next
    case False
    then show ?thesis
      unfolding e cleanupLoop.simps doomed_Cons Cons.IH by simp
  qed
qed

lemma doomed_distinct:
  assumes "distinct (map fst js)" and "(k, j) \<in> set js"
  shows "k \<in> doomed now m js \<longleftrightarrow> expired now m j"
proof
  assume "k \<in> doomed now m js"
  then obtain e where e: "e \<in> set js" "expired now m (snd e)" "fst e = k"
    by (auto simp: doomed_def)
  then have "(k, snd e) \<in> set js" by auto
  with assms have "snd e = j" by (rule_tac eq_key_imp_eq_value)
  with e show "expired now m j" by simp
next
  assume "expired now m j"
  with assms(2) show "k \<in> doomed now m js"
    by (force simp: doomed_def)
qed

lemma cleanup_jobs:
  assumes "wellFormed s"
  shows "jobs (snd (cleanup m now s)) = filter (\<lambda>e. \<not> expired now m (snd e)) (jobs s)"
proof -
  have d: "distinct (map fst (jobs s))" using assms by (simp add: wellFormed_def)
  have "filter (\<lambda>e. fst e \<notin> doomed now m (jobs s)) (jobs s)
      = filter (\<lambda>e. \<not> expired now m (snd e)) (jobs s)"
  proof (rule filter_cong [OF refl])
    fix e assume "e \<in> set (jobs s)"
    then have "(fst e, snd e) \<in> set (jobs s)" by simp
    from doomed_distinct [OF d this]
    show "(fst e \<notin> doomed now m (jobs s)) = (\<not> expired now m (snd e))" by simp
  qed
  then show ?thesis by (simp add: cleanup_def cleanupLoop_filter)
qed

lemma cleanup_count:
  "fst (cleanup m now s) = length (filter (\<lambda>e. expired now m (snd e)) (jobs s))"
  by (simp add: cleanup_def cleanupLoop_filter)

lemma cleanup_events: "events (snd (cleanup m now s)) = events s"
  by (simp add: cleanup_def cleanupLoop_filter)

lemma map_of_filter_distinct:
  "distinct (map fst xs) \<Longrightarrow>
   map_of (filter (\<lambda>e. P (snd e)) xs) k =
     (case map_of xs k of None \<Rightarrow> None | Some v \<Rightarrow> if P v then Some v else None)"
proof (induction xs)
  case Nil
  show ?case by simp
next
  case (Cons x xs)
  from Cons.prems have d: "distinct (map fst xs)" and nk: "fst x \<notin> fst ` set xs"
    by simp_all
  have none: "map_of xs (fst x) = None" using nk by (simp add: map_of_eq_None_iff)
  show ?case
  proof (cases "k = fst x")
    case True
    then show ?thesis using Cons.IH [OF d] none by (cases x) simp
  next
    case False
    then show ?thesis using Cons.IH [OF d] by (cases x) simp
  qed
qed

text \<open>
  C9. On a store whose map has each key once, as every store has that the operations
  build from the empty one, \<open>cleanup\<close> deletes exactly the jobs that
  are terminal and were last updated more than \<open>maxAgeMs\<close> before \<open>now\<close>: every other
  job, so every \<open>queued\<close> or \<open>processing\<close> job and every terminal job updated within
  \<open>maxAgeMs\<close>, is still there and unchanged, no job is added, and the number returned is
  the number of jobs deleted.
\<close>

theorem cleanup_deletes_only_old_terminal:
  assumes "wellFormed s"
  shows "getJob jid (snd (cleanup maxAgeMs now s)) =
           (case getJob jid s of
              None \<Rightarrow> None
            | Some job \<Rightarrow>
                if terminal job \<and> now - updatedAt job > maxAgeMs then None else Some job)
     \<and> fst (cleanup maxAgeMs now s) + length (jobs (snd (cleanup maxAgeMs now s)))
         = length (jobs s)
     \<and> wellFormed (snd (cleanup maxAgeMs now s))
     \<and> events (snd (cleanup maxAgeMs now s)) = events s"
proof -
  have d: "distinct (map fst (jobs s))" using assms by (simp add: wellFormed_def)
  have ex: "\<And>job. (\<not> expired now maxAgeMs job) = (\<not> (terminal job \<and> now - updatedAt job > maxAgeMs))"
    by (simp add: expired_def terminal_def)
  have 1: "getJob jid (snd (cleanup maxAgeMs now s)) =
           (case getJob jid s of
              None \<Rightarrow> None
            | Some job \<Rightarrow> if terminal job \<and> now - updatedAt job > maxAgeMs then None else Some job)"
    unfolding getJob_def cleanup_jobs [OF assms]
      map_of_filter_distinct [OF d, of "\<lambda>j. \<not> expired now maxAgeMs j" jid]
    by (simp add: ex split: option.split)
  have 2: "fst (cleanup maxAgeMs now s) + length (jobs (snd (cleanup maxAgeMs now s))) = length (jobs s)"
    unfolding cleanup_jobs [OF assms] cleanup_count
    by (rule sum_length_filter_compl)
  have 3: "wellFormed (snd (cleanup maxAgeMs now s))"
    unfolding wellFormed_def cleanup_jobs [OF assms] using d by (rule distinct_map_filter)
  show ?thesis using 1 2 3 cleanup_events by blast
qed

theorem cleanup_deletes_only_old_terminal_witness:
  "wellFormed sweepStore
   \<and> fst (cleanup 50 100 sweepStore) = 1
   \<and> getJob ''old-ready'' (snd (cleanup 50 100 sweepStore)) = None
   \<and> getJob ''fresh-failed'' (snd (cleanup 50 100 sweepStore)) = getJob ''fresh-failed'' sweepStore
   \<and> getJob ''old-processing'' (snd (cleanup 50 100 sweepStore))
       = getJob ''old-processing'' sweepStore"
proof -
  have h: "wellFormed sweepStore"
    by (simp add: wellFormed_def sweepStore_def)
  have g: "getJob ''old-ready'' sweepStore = Some (readyJob\<lparr>jobId := ''old-ready'', updatedAt := 0\<rparr>)"
    "getJob ''fresh-failed'' sweepStore
       = Some (readyJob\<lparr>jobId := ''fresh-failed'', status := Failed, updatedAt := 90\<rparr>)"
    "getJob ''old-processing'' sweepStore
       = Some (readyJob\<lparr>jobId := ''old-processing'', status := Processing, updatedAt := 0\<rparr>)"
    by (simp_all add: getJob_def sweepStore_def)
  note c = cleanup_deletes_only_old_terminal [OF h, of _ 50 100]
  have a: "getJob ''old-ready'' (snd (cleanup 50 100 sweepStore)) = None"
    unfolding c [of "''old-ready''", THEN conjunct1] g by (simp add: terminal_def readyJob_def)
  have b: "getJob ''fresh-failed'' (snd (cleanup 50 100 sweepStore)) = getJob ''fresh-failed'' sweepStore"
    unfolding c [of "''fresh-failed''", THEN conjunct1] g by (simp add: terminal_def readyJob_def)
  have p: "getJob ''old-processing'' (snd (cleanup 50 100 sweepStore))
       = getJob ''old-processing'' sweepStore"
    unfolding c [of "''old-processing''", THEN conjunct1] g by (simp add: terminal_def readyJob_def)
  have n: "fst (cleanup 50 100 sweepStore) = 1"
    by (simp add: cleanup_def sweepStore_def expired_def readyJob_def)
  from h a b p n show ?thesis by simp
qed

section \<open>The queue\<close>

lemma queueInv_qemit [simp]: "queueInv c (qemit n p q) = queueInv c q"
  by (simp add: queueInv_def qemit_def)

lemma queueInv_fields:
  "queueInv c (q\<lparr>queue := x\<rparr>) = queueInv c q"
  "queueInv c (q\<lparr>isRunning := b\<rparr>) = queueInv c q"
  "queueInv c (q\<lparr>handler := h\<rparr>) = queueInv c q"
  by (simp_all add: queueInv_def)

lemma queueInv_processJobStart:
  assumes "queueInv c q" and "activeJobs q < int (concurrency q)"
  shows "queueInv c (processJobStart job q)"
  using assms by (simp add: processJobStart_def queueInv_def qemit_def Let_def)

lemma tryProcessLoop_step:
  "activeJobs q < int (concurrency q) \<Longrightarrow> queue q = job # rest \<Longrightarrow>
   tryProcessLoop q = tryProcessLoop (processJobStart job (q\<lparr>queue := rest\<rparr>))"
  by (subst tryProcessLoop.simps) simp

lemma tryProcessLoop_full:
  "\<not> activeJobs q < int (concurrency q) \<Longrightarrow> tryProcessLoop q = q"
  by (subst tryProcessLoop.simps) simp

lemma tryProcessLoop_empty:
  "queue q = [] \<Longrightarrow> tryProcessLoop q = q"
  by (subst tryProcessLoop.simps) simp

lemma queueInv_tryProcessLoop:
  "queueInv c q \<Longrightarrow> queueInv c (tryProcessLoop q)"
proof (induction q rule: tryProcessLoop.induct)
  case (1 q)
  show ?case
  proof (cases "activeJobs q < int (concurrency q) \<and> length (queue q) > 0")
    case True
    then obtain job rest where qq: "queue q = job # rest"
      by (cases "queue q") auto
    have "queueInv c (q\<lparr>queue := tl (queue q)\<rparr>)"
      using "1.prems" by (simp add: queueInv_fields)
    moreover have "activeJobs (q\<lparr>queue := tl (queue q)\<rparr>) < int (concurrency (q\<lparr>queue := tl (queue q)\<rparr>))"
      using True by simp
    ultimately have "queueInv c (processJobStart (hd (queue q)) (q\<lparr>queue := tl (queue q)\<rparr>))"
      by (rule queueInv_processJobStart)
    from "1.IH" [OF True this]
    have "queueInv c (tryProcessLoop (processJobStart job (q\<lparr>queue := rest\<rparr>)))"
      by (simp add: qq)
    then show ?thesis
      using True tryProcessLoop_step [OF _ qq] by simp
  next
    case False
    then have "tryProcessLoop q = q"
      using tryProcessLoop_full [of q] tryProcessLoop_empty [of q] by auto
    then show ?thesis using "1.prems" by simp
  qed
qed

lemma queueInv_tryProcess: "queueInv c q \<Longrightarrow> queueInv c (tryProcess q)"
  by (simp add: tryProcess_def queueInv_tryProcessLoop)

lemma queueInv_new: "queueInv (configured copt) (newSimpleQueue copt mopt)"
  by (simp add: queueInv_def newSimpleQueue_def configured_def)

lemma queueInv_add: "queueInv c q \<Longrightarrow> queueInv c (snd (add jid fids now q))"
  by (simp add: add_def Let_def queueInv_tryProcess queueInv_fields)

lemma queueInv_process: "queueInv c q \<Longrightarrow> queueInv c (process q)"
  unfolding process_def by (rule queueInv_tryProcess) (simp add: queueInv_def)

lemma queueInv_finish:
  assumes "queueInv c q" and "job \<in> set (inflight q)"
  shows "queueInv c (processJobFinish job outcome q)"
proof -
  have pos: "length (inflight q) > 0" using assms(2) by (cases "inflight q") auto
  have len: "length (remove1 job (inflight q)) = length (inflight q) - 1"
    using assms(2) by (simp add: length_remove1)
  have dec: "int (length (inflight q) - 1) = int (length (inflight q)) - 1"
    using pos by (cases "inflight q") simp_all
  have act: "activeJobs q - 1 = int (length (remove1 job (inflight q)))"
    using assms(1) unfolding len dec by (simp only: queueInv_def)
  have le: "activeJobs q - 1 \<le> int c"
    using assms(1) by (simp add: queueInv_def)
  have cc: "concurrency q = c"
    using assms(1) by (simp add: queueInv_def)
  have base: "queueInv c (q1\<lparr>activeJobs := activeJobs q1 - 1, inflight := remove1 job (inflight q1)\<rparr>)"
    if "activeJobs q1 = activeJobs q" "inflight q1 = inflight q" "concurrency q1 = concurrency q"
    for q1
    using that act le cc by (simp add: queueInv_def)
  show ?thesis
    unfolding processJobFinish_def Let_def
  proof (rule queueInv_tryProcess, rule base)
    show "activeJobs (case outcome of
            Inl e \<Rightarrow> if attempts job < maxRetries q
                     then qemit ''job:retry'' (Some job) (q\<lparr>queue := queue q @ [job]\<rparr>)
                     else qemit ''job:failed'' (Some job) q
          | Inr u \<Rightarrow> qemit ''job:completed'' (Some job) q) = activeJobs q"
      by (simp add: qemit_def split: sum.split)
    show "inflight (case outcome of
            Inl e \<Rightarrow> if attempts job < maxRetries q
                     then qemit ''job:retry'' (Some job) (q\<lparr>queue := queue q @ [job]\<rparr>)
                     else qemit ''job:failed'' (Some job) q
          | Inr u \<Rightarrow> qemit ''job:completed'' (Some job) q) = inflight q"
      by (simp add: qemit_def split: sum.split)
    show "concurrency (case outcome of
            Inl e \<Rightarrow> if attempts job < maxRetries q
                     then qemit ''job:retry'' (Some job) (q\<lparr>queue := queue q @ [job]\<rparr>)
                     else qemit ''job:failed'' (Some job) q
          | Inr u \<Rightarrow> qemit ''job:completed'' (Some job) q) = concurrency q"
      by (simp add: qemit_def split: sum.split)
  qed
qed

lemma reachable_queueInv: "reachable copt mopt q \<Longrightarrow> queueInv (configured copt) q"
proof (induction rule: reachable.induct)
  case r_new
  show ?case by (rule queueInv_new)
next
  case (r_add q jid fids now)
  then show ?case by (simp add: queueInv_add)
next
  case (r_process q)
  then show ?case by (simp add: queueInv_process)
next
  case (r_settle q job outcome)
  then show ?case by (simp add: queueInv_finish)
next
  case (r_pause q)
  then show ?case by (simp add: pause_def queueInv_fields)
next
  case (r_resume q)
  then show ?case by (simp add: resume_def queueInv_tryProcess queueInv_fields)
next
  case (r_stop q)
  then show ?case by (simp add: stop_def queueInv_fields)
next
  case (r_shutdownBegin q)
  then show ?case by (simp add: shutdownBegin_def queueInv_fields)
next
  case (r_shutdownEnd q)
  then show ?case by (simp add: shutdownEnd_def queueInv_fields)
qed

text \<open>
  C7. In every state a queue can reach, the counter \<open>activeJobs\<close> is the number of
  handler invocations that have started and not settled, and it is at most the
  concurrency the queue was built with, however many entries are pending.
\<close>

theorem activeJobs_within_concurrency:
  assumes "reachable copt mopt q"
  shows "activeJobs q \<le> int (concurrency q)
         \<and> int (length (inflight q)) = activeJobs q
         \<and> concurrency q = (case copt of None \<Rightarrow> 1 | Some c \<Rightarrow> c)"
  using reachable_queueInv [OF assms] by (simp add: queueInv_def configured_def)

theorem activeJobs_within_concurrency_witness:
  "reachable (Some 2) None busyQueue \<and> length (queue busyQueue) = 1
   \<and> activeJobs busyQueue = 2 \<and> concurrency busyQueue = 2
   \<and> activeJobs busyQueue \<le> int (concurrency busyQueue)"
proof -
  have r: "reachable (Some 2) None busyQueue"
    unfolding busyQueue_def by (intro reachable.intros)
  have v: "length (queue busyQueue) = 1 \<and> activeJobs busyQueue = 2"
    by code_simp
  from r v activeJobs_within_concurrency [OF r] show ?thesis by simp
qed

section \<open>Rounding of the progress percentage\<close>

text \<open>
  The rounding to a double is monotone and exact on the doubles 1 and 100, so the
  percentage is monotone in the count and runs from 0 to 100; it is a nearest integer of
  the exact percentage. Of 120 files, 69 are 57.5 percent exactly; the doubles give
  57.49999999999999 and the worker stores 57.
\<close>

lemma bitLength_one: "bitLength 1 = 1"
  by (subst bitLength.simps, subst bitLength.simps) simp

lemma bitLength_int_bounds:
  "0 < n \<Longrightarrow> 1 \<le> bitLength n \<and> 2 ^ nat (bitLength n - 1) \<le> n \<and> n < 2 ^ nat (bitLength n)"
proof (induction n rule: bitLength.induct)
  case (1 n)
  show ?case
  proof (cases "n div 2 \<le> 0")
    case True
    with "1.prems" have n: "n = 1" by linarith
    show ?thesis unfolding n bitLength_one by simp
  next
    case False
    define m where "m = n div 2"
    define k where "k = bitLength m"
    from False have h: "0 < m" unfolding m_def by simp
    have b: "bitLength n = 1 + k"
      unfolding k_def m_def using "1.prems" by (subst bitLength.simps) simp
    have "1 \<le> bitLength (n div 2) \<and> 2 ^ nat (bitLength (n div 2) - 1) \<le> n div 2
            \<and> n div 2 < 2 ^ nat (bitLength (n div 2))"
      using "1.IH" "1.prems" h unfolding m_def by simp
    hence ih: "1 \<le> k" "2 ^ nat (k - 1) \<le> m" "m < 2 ^ nat k"
      unfolding k_def m_def by simp_all
    have nm: "2 * m \<le> n" "n < 2 * m + 2" unfolding m_def by linarith+
    have e1: "nat (1 + k - 1) = Suc (nat (k - 1))" using ih(1) by simp
    have e2: "nat (1 + k) = Suc (nat k)" using ih(1) by simp
    have "(2::int) ^ nat (1 + k - 1) \<le> n" unfolding e1 using ih(2) nm(1) by simp
    moreover have "n < 2 ^ nat (1 + k)" unfolding e2 using ih(3) nm(2) by simp
    ultimately show ?thesis unfolding b using ih(1) by simp
  qed
qed

lemma powi_nat: "0 \<le> k \<Longrightarrow> (2::rat) powi k = of_int (2 ^ nat k)"
  by (simp add: power_int_def)

lemma bitLength_bounds:
  assumes "0 < n"
  shows "(2::rat) powi (bitLength n - 1) \<le> of_int n" and "of_int n < (2::rat) powi bitLength n"
proof -
  from bitLength_int_bounds [OF assms]
  have b: "1 \<le> bitLength n" "2 ^ nat (bitLength n - 1) \<le> n" "n < 2 ^ nat (bitLength n)"
    by simp_all
  have 1: "(2::rat) powi (bitLength n - 1) = of_int (2 ^ nat (bitLength n - 1))"
    using b(1) by (intro powi_nat) simp
  have 2: "(2::rat) powi bitLength n = of_int (2 ^ nat (bitLength n))"
    using b(1) by (intro powi_nat) simp
  show "(2::rat) powi (bitLength n - 1) \<le> of_int n"
    unfolding 1 using b(2) by (simp only: of_int_le_iff)
  show "of_int n < (2::rat) powi bitLength n"
    unfolding 2 using b(3) by (simp only: of_int_less_iff)
qed

lemma powi_less_imp_less:
  assumes "(2::rat) powi m < 2 powi n"
  shows "m < n"
proof (rule ccontr)
  assume "\<not> m < n"
  hence "n \<le> m" by simp
  hence "(2::rat) powi n \<le> 2 powi m" by (intro power_int_increasing) simp_all
  with assms show False by simp
qed

lemma mathRound_of_int: "mathRound (of_int n) = n"
  unfolding mathRound_def by (rule floor_unique) simp_all

lemma exponent_bounds:
  assumes "0 < x"
  shows "2 powi exponent x \<le> x" and "x < 2 powi (exponent x + 1)"
proof -
  obtain n d where q: "quotient_of x = (n, d)" by (cases "quotient_of x")
  have d: "0 < d" using quotient_of_denom_pos [OF q] .
  have x: "x = of_int n / of_int d" using quotient_of_div [OF q] .
  have n: "0 < n" using assms d unfolding x by (simp add: zero_less_divide_iff)
  define a where "a = bitLength n"
  define b where "b = bitLength d"
  note bn = bitLength_bounds [OF n, folded a_def]
  note bd = bitLength_bounds [OF d, folded b_def]
  have dq: "(0::rat) < of_int d" using d by simp
  have nq: "(0::rat) < of_int n" using n by simp
  have lo: "2 powi (a - b - 1) \<le> x"
  proof -
    have "(2::rat) powi (a - b - 1) = 2 powi (a - 1) / 2 powi b"
      by (simp add: power_int_diff)
    also have "\<dots> \<le> of_int n / 2 powi b"
      using bn(1) by (simp add: divide_right_mono)
    also have "\<dots> \<le> of_int n / of_int d"
      using bd(2) nq dq by (simp add: frac_le)
    finally show ?thesis unfolding x .
  qed
  have hi: "x < 2 powi (a - b + 1)"
  proof -
    have "x = of_int n / of_int d" by (rule x)
    also have "\<dots> < 2 powi a / of_int d"
      using bn(2) dq by (simp add: divide_strict_right_mono)
    also have "\<dots> \<le> 2 powi a / 2 powi (b - 1)"
      using bd(1) by (simp add: frac_le)
    also have "\<dots> = 2 powi (a - b + 1)"
      by (simp add: power_int_diff power_int_add)
    finally show ?thesis .
  qed
  have e: "exponent x = (if 2 powi (a - b) \<le> x then a - b else a - b - 1)"
    unfolding exponent_def q a_def b_def by (simp add: Let_def)
  show "2 powi exponent x \<le> x" unfolding e using lo by simp
  show "x < 2 powi (exponent x + 1)" unfolding e using hi by (simp add: not_le)
qed

lemma exponent_unique:
  assumes "2 powi k \<le> x" "x < 2 powi (k + 1)"
  shows "exponent x = k"
proof -
  have p: "0 < x" using assms(1) zero_less_power_int [of "2::rat" k] by linarith
  note b = exponent_bounds [OF p]
  have "(2::rat) powi k < 2 powi (exponent x + 1)" using assms(1) b(2) by linarith
  hence 1: "k < exponent x + 1" by (rule powi_less_imp_less)
  have "(2::rat) powi exponent x < 2 powi (k + 1)" using assms(2) b(1) by linarith
  hence 2: "exponent x < k + 1" by (rule powi_less_imp_less)
  from 1 2 show ?thesis by simp
qed

lemma roundNearestEven_bounds:
  "\<lfloor>x\<rfloor> \<le> roundNearestEven x" "roundNearestEven x \<le> \<lfloor>x\<rfloor> + 1"
  by (simp_all add: roundNearestEven_def Let_def)

lemma roundNearestEven_of_int [simp]: "roundNearestEven (of_int n) = n"
  by (simp add: roundNearestEven_def Let_def)

lemma roundNearestEven_mono:
  assumes "x \<le> y"
  shows "roundNearestEven x \<le> roundNearestEven y"
proof (cases "\<lfloor>x\<rfloor> = \<lfloor>y\<rfloor>")
  case True
  have "x - of_int \<lfloor>y\<rfloor> \<le> y - of_int \<lfloor>y\<rfloor>" using assms by simp
  thus ?thesis unfolding roundNearestEven_def Let_def True by auto
next
  case False
  with floor_mono [OF assms] have "\<lfloor>x\<rfloor> + 1 \<le> \<lfloor>y\<rfloor>" by simp
  with roundNearestEven_bounds(2) [of x] roundNearestEven_bounds(1) [of y]
  show ?thesis by linarith
qed

lemma roundNearestEven_ge: "of_int n \<le> x \<Longrightarrow> n \<le> roundNearestEven x"
  using roundNearestEven_mono [of "of_int n" x] by simp

lemma roundNearestEven_le: "x \<le> of_int n \<Longrightarrow> roundNearestEven x \<le> n"
  using roundNearestEven_mono [of x "of_int n"] by simp

lemma roundToDouble_bounds:
  assumes "0 < x"
  shows "2 powi exponent x \<le> roundToDouble x" and "roundToDouble x \<le> 2 powi (exponent x + 1)"
proof -
  define e where "e = exponent x"
  define u :: rat where "u = 2 powi (e - 52)"
  have u: "0 < u" unfolding u_def by (simp add: zero_less_power_int)
  note b = exponent_bounds [OF assms, folded e_def]
  have p1: "(2::rat) powi e = of_int (2 ^ 52) * u"
    unfolding u_def by (simp add: power_int_diff)
  have p2: "(2::rat) powi (e + 1) = of_int (2 ^ 53) * u"
    unfolding u_def by (simp add: power_int_diff power_int_add)
  have "of_int (2 ^ 52) \<le> x / u" using b(1) u unfolding p1 by (simp add: pos_le_divide_eq)
  hence l: "2 ^ 52 \<le> roundNearestEven (x / u)" by (rule roundNearestEven_ge)
  have "x / u \<le> of_int (2 ^ 53)" using b(2) u unfolding p2 by (simp add: pos_divide_le_eq)
  hence h: "roundNearestEven (x / u) \<le> 2 ^ 53" by (rule roundNearestEven_le)
  have r: "roundToDouble x = of_int (roundNearestEven (x / u)) * u"
    unfolding roundToDouble_def u_def e_def ..
  have "of_int (2 ^ 52) * u \<le> of_int (roundNearestEven (x / u)) * u"
    using l u by (simp only: mult_le_cancel_right_pos of_int_le_iff)
  thus "2 powi exponent x \<le> roundToDouble x" unfolding r p1 [unfolded e_def] e_def [symmetric] p1 .
  have "of_int (roundNearestEven (x / u)) * u \<le> of_int (2 ^ 53) * u"
    using h u by (simp only: mult_le_cancel_right_pos of_int_le_iff)
  thus "roundToDouble x \<le> 2 powi (exponent x + 1)" unfolding r e_def [symmetric] p2 .
qed

lemma roundToDouble_mono:
  assumes "0 < x" "x \<le> y"
  shows "roundToDouble x \<le> roundToDouble y"
proof -
  have y: "0 < y" using assms by simp
  note bx = exponent_bounds [OF assms(1)]
  note by' = exponent_bounds [OF y]
  have "(2::rat) powi exponent x < 2 powi (exponent y + 1)"
    using bx(1) by'(2) assms(2) by linarith
  hence "exponent x < exponent y + 1" by (rule powi_less_imp_less)
  hence le: "exponent x \<le> exponent y" by simp
  show ?thesis
  proof (cases "exponent x = exponent y")
    case True
    define u :: rat where "u = 2 powi (exponent y - 52)"
    have u: "0 < u" unfolding u_def by (simp add: zero_less_power_int)
    have "x / u \<le> y / u" using assms(2) u by (simp add: divide_right_mono)
    hence "roundNearestEven (x / u) \<le> roundNearestEven (y / u)" by (rule roundNearestEven_mono)
    hence "of_int (roundNearestEven (x / u)) * u \<le> of_int (roundNearestEven (y / u)) * u"
      using u by (simp only: mult_le_cancel_right_pos of_int_le_iff)
    thus ?thesis unfolding roundToDouble_def True u_def .
  next
    case False
    with le have "exponent x + 1 \<le> exponent y" by simp
    hence "(2::rat) powi (exponent x + 1) \<le> 2 powi exponent y"
      by (intro power_int_increasing) simp_all
    with roundToDouble_bounds(2) [OF assms(1)] roundToDouble_bounds(1) [OF y]
    show ?thesis by linarith
  qed
qed

lemma toDouble_nonneg: "0 \<le> x \<Longrightarrow> 0 \<le> toDouble x"
proof -
  assume "0 \<le> x"
  show ?thesis
  proof (cases "x = 0")
    case True thus ?thesis by (simp add: toDouble_def)
  next
    case False
    with \<open>0 \<le> x\<close> have p: "0 < x" by simp
    have "(0::rat) < 2 powi exponent x" by (simp add: zero_less_power_int)
    with roundToDouble_bounds(1) [OF p] have "0 < roundToDouble x" by linarith
    thus ?thesis using p by (simp add: toDouble_def)
  qed
qed

lemma toDouble_mono:
  assumes "0 \<le> x" "x \<le> y"
  shows "toDouble x \<le> toDouble y"
proof (cases "x = 0")
  case True
  have "0 \<le> toDouble y" using assms by (intro toDouble_nonneg) simp
  thus ?thesis using True by (simp add: toDouble_def)
next
  case False
  with assms have p: "0 < x" "0 < y" by simp_all
  show ?thesis using roundToDouble_mono [OF p(1) assms(2)] p by (simp add: toDouble_def)
qed

lemma toDouble_one: "toDouble 1 = 1"
  by code_simp

lemma toDouble_hundred: "toDouble 100 = 100"
  by code_simp

lemma roundPercent_mono:
  assumes "c \<le> c'"
  shows "roundPercent c t \<le> roundPercent c' t"
proof -
  have q: "(0::rat) \<le> of_nat c / of_nat t" by simp
  have "(of_nat c :: rat) / of_nat t \<le> of_nat c' / of_nat t"
    using assms by (simp add: divide_right_mono)
  hence 1: "toDouble (of_nat c / of_nat t) \<le> toDouble (of_nat c' / of_nat t)"
    by (rule toDouble_mono [OF q])
  have 2: "0 \<le> toDouble (of_nat c / of_nat t) * 100"
    using toDouble_nonneg [OF q] by simp
  have "toDouble (toDouble (of_nat c / of_nat t) * 100)
          \<le> toDouble (toDouble (of_nat c' / of_nat t) * 100)"
    using 1 by (intro toDouble_mono [OF 2]) simp
  thus ?thesis unfolding roundPercent_def mathRound_def by (intro floor_mono) simp
qed

lemma roundPercent_nonneg: "0 \<le> roundPercent c t"
proof -
  have q: "(0::rat) \<le> of_nat c / of_nat t" by simp
  have "0 \<le> toDouble (toDouble (of_nat c / of_nat t) * 100)"
    using toDouble_nonneg [OF q] by (intro toDouble_nonneg) simp
  thus ?thesis unfolding roundPercent_def mathRound_def by simp
qed

lemma roundPercent_zero: "roundPercent 0 t = 0"
  using mathRound_of_int [of 0] by (simp add: roundPercent_def toDouble_def)

lemma roundPercent_all: "0 < t \<Longrightarrow> roundPercent t t = 100"
  using mathRound_of_int [of 100] by (simp add: roundPercent_def toDouble_one toDouble_hundred)

lemma roundPercent_le100:
  assumes "c \<le> t"
  shows "roundPercent c t \<le> 100"
proof (cases "t = 0")
  case True
  with assms roundPercent_zero [of t] show ?thesis by simp
next
  case False
  with roundPercent_mono [OF assms, of t] roundPercent_all [of t]
  show ?thesis by simp
qed






lemma roundPercent_tie: "roundPercent 69 120 = 57"
  by code_simp

section \<open>The worker\<close>

lemma jobTrace_append: "jobTrace jid (xs @ ys) = jobTrace jid xs @ jobTrace jid ys"
  by (simp add: jobTrace_def List.map_filter_def)

lemma jobTrace_Nil: "jobTrace jid [] = []"
  by (simp add: jobTrace_def List.map_filter_def)

lemma jobTrace_updateJob_new:
  "jobTrace jid ((jobChannel jid, Typed ''updated'' j) #
           (if status j = Ready then
              [(jobChannel jid, Typed ''completed'' j), (''job:completed'', Plain j)]
            else if status j = Failed then
              [(jobChannel jid, Typed ''failed'' j), (''job:failed'', Plain j)]
            else [])) = [j]"
  by (simp add: jobTrace_def List.map_filter_def)

lemma updateJob_step:
  assumes "getJob jid s = Some job"
  shows "\<exists>evs. events (snd (updateJob jid u now s)) = events s @ evs
           \<and> jobTrace jid evs = [applyUpdates job u now]"
  using updateJob_events [OF assms, of u now] jobTrace_updateJob_new [of jid "applyUpdates job u now"]
  by blast

lemma applyUpdates_progress:
  "applyUpdates job (noUpdates\<lparr>u_progress := Some p\<rparr>) now = job\<lparr>progress := p, updatedAt := now\<rparr>"
  by (simp add: applyUpdates_def noUpdates_def override_def override_opt_def)

lemma applyUpdates_start:
  "applyUpdates job (noUpdates\<lparr>u_status := Some Processing, u_progress := Some 0,
      u_processingStartedAt := Some now\<rparr>) now
   = job\<lparr>status := Processing, progress := 0, processingStartedAt := Some now, updatedAt := now\<rparr>"
  by (simp add: applyUpdates_def noUpdates_def override_def override_opt_def)

lemma applyUpdates_ready:
  "applyUpdates job (noUpdates\<lparr>u_status := Some Ready, u_progress := Some 100,
      u_downloadUrl := Some url, u_completedAt := Some now\<rparr>) now
   = job\<lparr>status := Ready, progress := 100, downloadUrl := Some url, completedAt := Some now,
         updatedAt := now\<rparr>"
  by (simp add: applyUpdates_def noUpdates_def override_def override_opt_def)

lemma applyUpdates_failed:
  "applyUpdates job (noUpdates\<lparr>u_status := Some Failed, u_error := Some msg,
      u_completedAt := Some now\<rparr>) now
   = job\<lparr>status := Failed, error := Some msg, completedAt := Some now, updatedAt := now\<rparr>"
  by (simp add: applyUpdates_def noUpdates_def override_def override_opt_def)

lemma length_slice: "length (slice xs i (i + n)) = min n (length xs - i)"
  by (simp add: slice_def)



subsection \<open>The batch loop\<close>

lemma batchCounts_lower: "x \<in> set (batchCounts t i c) \<Longrightarrow> c \<le> x"
proof (induction t i c rule: batchCounts.induct)
  case (1 t i c)
  show ?case
  proof (cases "i < t")
    case True
    from "1.prems" True
    have "x = c + min PARALLEL_FILE_BATCH_SIZE (t - i)
          \<or> x \<in> set (batchCounts t (i + PARALLEL_FILE_BATCH_SIZE) (c + min PARALLEL_FILE_BATCH_SIZE (t - i)))"
      by (subst (asm) batchCounts.simps) simp
    then show ?thesis
      using "1.IH" [OF True] by auto
  next
    case False
    with "1.prems" show ?thesis by (subst (asm) batchCounts.simps) simp
  qed
qed

lemma batchCounts_sorted: "sorted (batchCounts t i c)"
proof (induction t i c rule: batchCounts.induct)
  case (1 t i c)
  show ?case
  proof (cases "i < t")
    case True
    have "batchCounts t i c = (c + min PARALLEL_FILE_BATCH_SIZE (t - i))
            # batchCounts t (i + PARALLEL_FILE_BATCH_SIZE) (c + min PARALLEL_FILE_BATCH_SIZE (t - i))"
      using True by (subst batchCounts.simps) simp
    then show ?thesis
      using "1.IH" [OF True] batchCounts_lower by auto
  next
    case False
    then have "batchCounts t i c = []" by (subst batchCounts.simps) simp
    then show ?thesis by simp
  qed
qed

lemma batchCounts_upper: "x \<in> set (batchCounts t i c) \<Longrightarrow> x \<le> c + (t - i)"
proof (induction t i c rule: batchCounts.induct)
  case (1 t i c)
  show ?case
  proof (cases "i < t")
    case True
    from "1.prems" True
    have "x = c + min PARALLEL_FILE_BATCH_SIZE (t - i)
          \<or> x \<in> set (batchCounts t (i + PARALLEL_FILE_BATCH_SIZE) (c + min PARALLEL_FILE_BATCH_SIZE (t - i)))"
      by (subst (asm) batchCounts.simps) simp
    then show ?thesis
    proof
      assume "x = c + min PARALLEL_FILE_BATCH_SIZE (t - i)"
      then show ?thesis by simp
    next
      assume "x \<in> set (batchCounts t (i + PARALLEL_FILE_BATCH_SIZE) (c + min PARALLEL_FILE_BATCH_SIZE (t - i)))"
      from "1.IH" [OF True this] show ?thesis by (simp add: min_def split: if_splits)
    qed
  next
    case False
    with "1.prems" show ?thesis by (subst (asm) batchCounts.simps) simp
  qed
qed



lemma processBatches_trace:
  "getJob (q_jobId qj) s = Some job \<Longrightarrow>
   \<exists>n evs. n \<le> length (batchCounts (length (q_fileIds qj)) i cnt)
     \<and> events (snd (processBatches ext qj now i keys cnt s)) = events s @ evs
     \<and> jobTrace (q_jobId qj) evs =
         map (\<lambda>c. job\<lparr>progress := roundPercent c (length (q_fileIds qj)), updatedAt := now\<rparr>)
           (take n (batchCounts (length (q_fileIds qj)) i cnt))
     \<and> getJob (q_jobId qj) (snd (processBatches ext qj now i keys cnt s)) =
         Some (if n = 0 then job
               else job\<lparr>progress := roundPercent
                                      (last (take n (batchCounts (length (q_fileIds qj)) i cnt)))
                                      (length (q_fileIds qj)),
                        updatedAt := now\<rparr>)
     \<and> (isl (fst (processBatches ext qj now i keys cnt s)) \<or>
          n = length (batchCounts (length (q_fileIds qj)) i cnt))"
proof (induction ext qj now i keys cnt s arbitrary: job rule: processBatches.induct)
  case (1 ext qj now i keys cnt s)
  let ?t = "length (q_fileIds qj)"
  let ?jid = "q_jobId qj"
  let ?batch = "slice (q_fileIds qj) i (i + PARALLEL_FILE_BATCH_SIZE)"
  show ?case
  proof (cases "i < ?t")
    case False
    then have r: "processBatches ext qj now i keys cnt s = (Inr keys, s)"
      by (subst processBatches.simps) simp
    from False have b: "batchCounts ?t i cnt = []"
      by (subst batchCounts.simps) simp
    show ?thesis
      unfolding r b using "1.prems" by (intro exI [of _ 0] exI [of _ "[]"]) (simp add: jobTrace_Nil)
  next
    case True
    let ?c = "cnt + length ?batch"
    have cnt': "?c = cnt + min PARALLEL_FILE_BATCH_SIZE (?t - i)"
      by (simp add: length_slice)
    from True have b: "batchCounts ?t i cnt = ?c # batchCounts ?t (i + PARALLEL_FILE_BATCH_SIZE) ?c"
      by (subst batchCounts.simps) (simp add: cnt')
    show ?thesis
    proof (cases "processBatch ext (attempts qj) ?batch")
      case (Inl e)
      with True have r: "processBatches ext qj now i keys cnt s = (Inl e, s)"
        by (subst processBatches.simps) simp
      show ?thesis
        unfolding r using "1.prems" by (intro exI [of _ 0] exI [of _ "[]"]) (simp add: jobTrace_Nil)
    next
      case (Inr ks)
      let ?p = "roundPercent ?c ?t"
      let ?s1 = "snd (updateJob ?jid (noUpdates\<lparr>u_progress := Some ?p\<rparr>) now s)"
      let ?job1 = "job\<lparr>progress := ?p, updatedAt := now\<rparr>"
      from True Inr have r: "processBatches ext qj now i keys cnt s =
          processBatches ext qj now (i + PARALLEL_FILE_BATCH_SIZE) (keys @ ks) ?c ?s1"
        by (subst processBatches.simps) simp
      have g1: "getJob ?jid ?s1 = Some ?job1"
        using getJob_updateJob_same [OF "1.prems"] by (simp add: applyUpdates_progress)
      obtain evs1 where e1: "events ?s1 = events s @ evs1" and t1: "jobTrace ?jid evs1 = [?job1]"
        using updateJob_step [OF "1.prems", of "noUpdates\<lparr>u_progress := Some ?p\<rparr>" now]
        by (auto simp: applyUpdates_progress)
      from "1.IH" [OF True Inr g1]
      obtain n evs where
        n: "n \<le> length (batchCounts ?t (i + PARALLEL_FILE_BATCH_SIZE) ?c)" and
        ev: "events (snd (processBatches ext qj now (i + PARALLEL_FILE_BATCH_SIZE) (keys @ ks) ?c ?s1)) = events ?s1 @ evs" and
        tr: "jobTrace ?jid evs =
               map (\<lambda>c. ?job1\<lparr>progress := roundPercent c ?t, updatedAt := now\<rparr>)
                 (take n (batchCounts ?t (i + PARALLEL_FILE_BATCH_SIZE) ?c))" and
        gj: "getJob ?jid (snd (processBatches ext qj now (i + PARALLEL_FILE_BATCH_SIZE) (keys @ ks) ?c ?s1)) =
               Some (if n = 0 then ?job1
                     else ?job1\<lparr>progress := roundPercent
                            (last (take n (batchCounts ?t (i + PARALLEL_FILE_BATCH_SIZE) ?c))) ?t,
                          updatedAt := now\<rparr>)" and
        fin: "isl (fst (processBatches ext qj now (i + PARALLEL_FILE_BATCH_SIZE) (keys @ ks) ?c ?s1)) \<or>
               n = length (batchCounts ?t (i + PARALLEL_FILE_BATCH_SIZE) ?c)"
        by blast
      show ?thesis
        unfolding r b
      proof (intro exI [of _ "Suc n"] exI [of _ "evs1 @ evs"] conjI)
        show "Suc n \<le> length (?c # batchCounts ?t (i + PARALLEL_FILE_BATCH_SIZE) ?c)"
          using n by simp
        show "events (snd (processBatches ext qj now (i + PARALLEL_FILE_BATCH_SIZE) (keys @ ks) ?c ?s1)) = events s @ evs1 @ evs"
          using ev e1 by simp
        show "jobTrace ?jid (evs1 @ evs) =
            map (\<lambda>c. job\<lparr>progress := roundPercent c ?t, updatedAt := now\<rparr>)
              (take (Suc n) (?c # batchCounts ?t (i + PARALLEL_FILE_BATCH_SIZE) ?c))"
          by (simp add: jobTrace_append t1 tr)
        show "getJob ?jid (snd (processBatches ext qj now (i + PARALLEL_FILE_BATCH_SIZE) (keys @ ks) ?c ?s1)) =
            Some (if Suc n = 0 then job
                  else job\<lparr>progress := roundPercent
                         (last (take (Suc n) (?c # batchCounts ?t (i + PARALLEL_FILE_BATCH_SIZE) ?c))) ?t,
                       updatedAt := now\<rparr>)"
        proof (cases "n = 0")
          case True
          then show ?thesis unfolding gj by simp
        next
          case False
          with n have "take n (batchCounts ?t (i + PARALLEL_FILE_BATCH_SIZE) ?c) \<noteq> []"
            by auto
          then show ?thesis unfolding gj using False by simp
        qed
        show "isl (fst (processBatches ext qj now (i + PARALLEL_FILE_BATCH_SIZE) (keys @ ks) ?c ?s1)) \<or>
            Suc n = length (?c # batchCounts ?t (i + PARALLEL_FILE_BATCH_SIZE) ?c)"
          using fin by simp
      qed
    qed
  qed
qed








subsection \<open>One attempt\<close>

lemma tryBlock_batch_failure:
  "processBatches ext qj now 0 [] 0 s = (Inl e, s1) \<Longrightarrow> tryBlock ext qj now s = (Inl e, s1)"
  by (simp add: tryBlock_def)

lemma tryBlock_url_failure:
  "processBatches ext qj now 0 [] 0 s = (Inr ks, s1) \<Longrightarrow>
   generatePresignedUrl ext (attempts qj) (finalKey (q_jobId qj) ks) = Inl e \<Longrightarrow>
   tryBlock ext qj now s = (Inl e, s1)"
  by (simp add: tryBlock_def finalKey_def Let_def)

lemma tryBlock_success:
  "processBatches ext qj now 0 [] 0 s = (Inr ks, s1) \<Longrightarrow>
   generatePresignedUrl ext (attempts qj) (finalKey (q_jobId qj) ks) = Inr url \<Longrightarrow>
   tryBlock ext qj now s =
     (Inr (), snd (updateJob (q_jobId qj)
                     (noUpdates\<lparr>u_status := Some Ready, u_progress := Some 100,
                        u_downloadUrl := Some url, u_completedAt := Some now\<rparr>) now s1))"
  by (simp add: tryBlock_def finalKey_def Let_def)

lemma processDownloadJob_missing:
  "getJob (q_jobId qj) s = None \<Longrightarrow>
   processDownloadJob ext qj now s = (Inl (Error (''Job not found: '' @ q_jobId qj)), s)"
  by (simp add: processDownloadJob_def)

lemma processDownloadJob_rejects:
  assumes "getJob (q_jobId qj) s = Some job"
    and "tryBlock ext qj now (snd (updateJob (q_jobId qj)
            (noUpdates\<lparr>u_status := Some Processing, u_progress := Some 0,
               u_processingStartedAt := Some now\<rparr>) now s)) = (Inl e, s2)"
  shows "processDownloadJob ext qj now s =
     (Inl e, snd (updateJob (q_jobId qj)
                    (noUpdates\<lparr>u_status := Some Failed, u_error := Some (errorMessage e),
                       u_completedAt := Some now\<rparr>) now s2))"
  using assms by (simp add: processDownloadJob_def Let_def)

lemma processDownloadJob_resolves:
  assumes "getJob (q_jobId qj) s = Some job"
    and "tryBlock ext qj now (snd (updateJob (q_jobId qj)
            (noUpdates\<lparr>u_status := Some Processing, u_progress := Some 0,
               u_processingStartedAt := Some now\<rparr>) now s)) = (Inr u, s2)"
  shows "processDownloadJob ext qj now s = (Inr u, s2)"
  using assms by (simp add: processDownloadJob_def Let_def)

lemma processDownloadJob_trace:
  assumes g: "getJob (q_jobId qj) s = Some job"
  shows "\<exists>n evs jf. n \<le> length (batchCounts (length (q_fileIds qj)) 0 0)
     \<and> events (snd (processDownloadJob ext qj now s)) = events s @ evs
     \<and> map view (jobTrace (q_jobId qj) evs) =
         (Processing, 0) # map (\<lambda>c. (Processing, roundPercent c (length (q_fileIds qj))))
               (take n (batchCounts (length (q_fileIds qj)) 0 0))
           @ [view jf]
     \<and> getJob (q_jobId qj) (snd (processDownloadJob ext qj now s)) = Some jf
     \<and> (case fst (processDownloadJob ext qj now s) of
           Inl e \<Rightarrow> status jf = Failed \<and> error jf = Some (errorMessage e)
                    \<and> progress jf = last (0 # map (\<lambda>c. roundPercent c (length (q_fileIds qj)))
                                (take n (batchCounts (length (q_fileIds qj)) 0 0)))
         | Inr u \<Rightarrow> status jf = Ready \<and> progress jf = 100 \<and> downloadUrl jf \<noteq> None
                    \<and> n = length (batchCounts (length (q_fileIds qj)) 0 0))"
proof -
  let ?jid = "q_jobId qj"
  let ?t = "length (q_fileIds qj)"
  let ?bc = "batchCounts ?t 0 0"
  let ?u0 = "noUpdates\<lparr>u_status := Some Processing, u_progress := Some 0,
               u_processingStartedAt := Some now\<rparr>"
  let ?s1 = "snd (updateJob ?jid ?u0 now s)"
  let ?job1 = "job\<lparr>status := Processing, progress := 0, processingStartedAt := Some now,
                   updatedAt := now\<rparr>"
  have g1: "getJob ?jid ?s1 = Some ?job1"
    using getJob_updateJob_same [OF g, of ?u0 now] by (simp only: applyUpdates_start)
  obtain evs1 where e1: "events ?s1 = events s @ evs1" and t1: "jobTrace ?jid evs1 = [?job1]"
    using updateJob_step [OF g, of ?u0 now] by (auto simp only: applyUpdates_start)
  obtain r2 s2 where pb: "processBatches ext qj now 0 [] 0 ?s1 = (r2, s2)"
    by (cases "processBatches ext qj now 0 [] 0 ?s1")
  from processBatches_trace [OF g1, of 0 0 ext now "[]"] pb
  obtain n evs2 where
    n: "n \<le> length ?bc" and
    e2: "events s2 = events ?s1 @ evs2" and
    t2: "jobTrace ?jid evs2 = map (\<lambda>c. ?job1\<lparr>progress := roundPercent c ?t, updatedAt := now\<rparr>) (take n ?bc)" and
    g2: "getJob ?jid s2 = Some (if n = 0 then ?job1
               else ?job1\<lparr>progress := roundPercent (last (take n ?bc)) ?t, updatedAt := now\<rparr>)" and
    fin: "isl r2 \<or> n = length ?bc"
    by auto
  let ?ps = "map (\<lambda>c. roundPercent c ?t) (take n ?bc)"
  let ?jobL = "if n = 0 then ?job1
               else ?job1\<lparr>progress := roundPercent (last (take n ?bc)) ?t, updatedAt := now\<rparr>"
  have p1: "map view (jobTrace ?jid evs1) = [(Processing, 0)]"
    unfolding t1 by (simp add: view_def)
  have p2: "map view (jobTrace ?jid evs2) = map (\<lambda>c. (Processing, roundPercent c ?t)) (take n ?bc)"
    unfolding t2 by (simp add: comp_def view_def)
  have pL: "progress ?jobL = last (0 # ?ps)"
  proof (cases "n = 0")
    case True
    then show ?thesis by simp
  next
    case False
    with n have "take n ?bc \<noteq> []" by auto
    then show ?thesis using False by (simp add: last_map)
  qed
  have failure: ?thesis if tb: "tryBlock ext qj now ?s1 = (Inl e, s2)" for e
  proof -
    let ?uf = "noUpdates\<lparr>u_status := Some Failed, u_error := Some (errorMessage e),
                 u_completedAt := Some now\<rparr>"
    define jf where "jf = applyUpdates ?jobL ?uf now"
    define s3 where "s3 = snd (updateJob ?jid ?uf now s2)"
    have res: "processDownloadJob ext qj now s = (Inl e, s3)"
      unfolding s3_def by (rule processDownloadJob_rejects [OF g tb])
    obtain evs3 where e3: "events s3 = events s2 @ evs3"
      and t3: "jobTrace ?jid evs3 = [jf]"
      unfolding s3_def jf_def using updateJob_step [OF g2, of ?uf now] by blast
    have g3: "getJob ?jid s3 = Some jf"
      unfolding s3_def jf_def by (rule getJob_updateJob_same [OF g2])
    have f1: "status jf = Failed" and f2: "error jf = Some (errorMessage e)"
      and f3: "progress jf = last (0 # ?ps)"
      unfolding jf_def applyUpdates_failed using pL by simp_all
    show ?thesis
      unfolding res
      by (intro exI [of _ n] exI [of _ "evs1 @ evs2 @ evs3"] exI [of _ jf])
        (simp add: n e1 e2 e3 jobTrace_append p1 p2 t3 g3 f1 f2 f3)
  qed
  show ?thesis
  proof (cases r2)
    case (Inl e)
    with pb have "tryBlock ext qj now ?s1 = (Inl e, s2)"
      by (simp add: tryBlock_batch_failure)
    then show ?thesis by (rule failure)
  next
    case (Inr ks)
    with fin have nfull: "n = length ?bc" by simp
    show ?thesis
    proof (cases "generatePresignedUrl ext (attempts qj) (finalKey ?jid ks)")
      case (Inl e)
      with pb Inr have "tryBlock ext qj now ?s1 = (Inl e, s2)"
        by (simp add: tryBlock_url_failure)
      then show ?thesis by (rule failure)
    next
      case url: (Inr url)
      let ?ur = "noUpdates\<lparr>u_status := Some Ready, u_progress := Some 100,
                   u_downloadUrl := Some url, u_completedAt := Some now\<rparr>"
      define jf where "jf = applyUpdates ?jobL ?ur now"
      define s3 where "s3 = snd (updateJob ?jid ?ur now s2)"
      from pb Inr url have tb: "tryBlock ext qj now ?s1 = (Inr (), s3)"
        unfolding s3_def by (simp add: tryBlock_success)
      have res: "processDownloadJob ext qj now s = (Inr (), s3)"
        by (rule processDownloadJob_resolves [OF g tb])
      obtain evs3 where e3: "events s3 = events s2 @ evs3"
        and t3: "jobTrace ?jid evs3 = [jf]"
        unfolding s3_def jf_def using updateJob_step [OF g2, of ?ur now] by blast
      have g3: "getJob ?jid s3 = Some jf"
        unfolding s3_def jf_def by (rule getJob_updateJob_same [OF g2])
      have f1: "status jf = Ready" and f2: "progress jf = 100" and f3: "downloadUrl jf \<noteq> None"
        unfolding jf_def applyUpdates_ready by simp_all
      show ?thesis
        unfolding res
        by (intro exI [of _ n] exI [of _ "evs1 @ evs2 @ evs3"] exI [of _ jf])
          (simp add: n nfull [symmetric] e1 e2 e3 jobTrace_append p1 p2 t3 g3 f1 f2 f3)
    qed
  qed
qed


lemma sorted_roundPercent: "sorted cs \<Longrightarrow> sorted (map (\<lambda>c. roundPercent c t) cs)"
  by (induction cs) (auto intro: roundPercent_mono)

lemma sorted_le_last: "sorted xs \<Longrightarrow> x \<in> set xs \<Longrightarrow> x \<le> (last xs :: int)"
proof (induction xs)
  case Nil
  then show ?case by simp
next
  case (Cons y ys)
  show ?case
  proof (cases "ys = []")
    case True
    with Cons.prems show ?thesis by simp
  next
    case False
    then have l: "last ys \<in> set ys" by simp
    from Cons.prems(1) have s: "sorted ys" and le: "\<forall>z \<in> set ys. y \<le> z" by simp_all
    show ?thesis
    proof (cases "x = y")
      case True
      then show ?thesis using le l False by simp
    next
      case neq: False
      with Cons.prems(2) have "x \<in> set ys" by simp
      from Cons.IH [OF s this] show ?thesis using False by simp
    qed
  qed
qed



text \<open>
  C2, as the code has it. Within one attempt of the worker the progress the job is
  stored with never decreases: the attempt first stores progress 0 with status
  \<open>processing\<close>, then the rounded percentage after each batch, and at its end 100 with
  \<open>ready\<close>, or the progress as it stands with \<open>failed\<close>. Every attempt on a job that
  is in the store, a retry too, starts again from progress 0.
\<close>

theorem progress_nondecreasing_within_attempt:
  shows "sorted (map progress
           (jobTrace (q_jobId qj) (emittedSince s (snd (processDownloadJob ext qj now s)))))
         \<and> (getJob (q_jobId qj) s \<noteq> None \<longrightarrow>
              map view (take 1 (jobTrace (q_jobId qj)
                 (emittedSince s (snd (processDownloadJob ext qj now s))))) = [(Processing, 0)])"
proof (cases "getJob (q_jobId qj) s")
  case None
  have E: "emittedSince s (snd (processDownloadJob ext qj now s)) = []"
    unfolding processDownloadJob_missing [OF None] by (simp add: emittedSince_def)
  show ?thesis unfolding E jobTrace_Nil None by simp
next
  case (Some job)
  let ?t = "length (q_fileIds qj)"
  let ?bc = "batchCounts ?t 0 0"
  let ?r = "fst (processDownloadJob ext qj now s)"
  from processDownloadJob_trace [OF Some, of ext now]
  obtain n evs jf where all: "n \<le> length ?bc
     \<and> events (snd (processDownloadJob ext qj now s)) = events s @ evs
     \<and> map view (jobTrace (q_jobId qj) evs) =
         (Processing, 0) # map (\<lambda>c. (Processing, roundPercent c ?t)) (take n ?bc) @ [view jf]
     \<and> getJob (q_jobId qj) (snd (processDownloadJob ext qj now s)) = Some jf
     \<and> (case ?r of
           Inl e \<Rightarrow> status jf = Failed \<and> error jf = Some (errorMessage e)
                    \<and> progress jf = last (0 # map (\<lambda>c. roundPercent c ?t) (take n ?bc))
         | Inr u \<Rightarrow> status jf = Ready \<and> progress jf = 100 \<and> downloadUrl jf \<noteq> None
                    \<and> n = length ?bc)"
    by (elim exE) (rule that)
  note n = all [THEN conjunct1]
  note ev = all [THEN conjunct2, THEN conjunct1]
  note tr = all [THEN conjunct2, THEN conjunct2, THEN conjunct1]
  note fin = all [THEN conjunct2, THEN conjunct2, THEN conjunct2, THEN conjunct2]
  let ?ps = "map (\<lambda>c. roundPercent c ?t) (take n ?bc)"
  have es: "emittedSince s (snd (processDownloadJob ext qj now s)) = evs"
    by (rule emittedSince_append [OF ev])
  have "map progress (jobTrace (q_jobId qj) evs) = map snd (map view (jobTrace (q_jobId qj) evs))"
    by (simp add: view_def comp_def)
  also have "\<dots> = 0 # ?ps @ [progress jf]"
    unfolding tr by (simp add: view_def comp_def)
  finally have pr: "map progress (jobTrace (q_jobId qj) evs) = 0 # ?ps @ [progress jf]" .
  have sps: "sorted ?ps"
    by (rule sorted_roundPercent) (simp add: sorted_wrt_take batchCounts_sorted)
  have low: "\<forall>p \<in> set ?ps. 0 \<le> p" using roundPercent_nonneg by auto
  have s0: "sorted (0 # ?ps)" using sps low by simp
  have top: "\<forall>p \<in> set (0 # ?ps). p \<le> progress jf"
  proof (cases ?r)
    case (Inl e)
    with fin have "progress jf = last (0 # ?ps)" by simp
    moreover have "\<forall>p \<in> set (0 # ?ps). p \<le> last (0 # ?ps)"
      using sorted_le_last [OF s0] by blast
    ultimately show ?thesis by simp
  next
    case (Inr u)
    with fin have p100: "progress jf = 100" by simp
    have "\<forall>c \<in> set (take n ?bc). c \<le> ?t"
      using batchCounts_upper [of _ ?t 0 0] by (auto dest: in_set_takeD)
    then have "\<forall>p \<in> set ?ps. p \<le> 100" using roundPercent_le100 by auto
    then show ?thesis using p100 by simp
  qed
  have "sorted ((0 # ?ps) @ [progress jf])"
    using s0 top by (simp only: sorted_append) simp
  then have "sorted (map progress (jobTrace (q_jobId qj) evs))"
    unfolding pr by simp
  moreover have "map view (take 1 (jobTrace (q_jobId qj) evs)) = [(Processing, 0)]"
    using tr by (simp add: take_map [symmetric])
  ultimately show ?thesis unfolding es by simp
qed

theorem progress_nondecreasing_within_attempt_witness:
  "getJob (q_jobId fourFiles) queuedStore \<noteq> None
   \<and> map view (jobTrace ''j1'' (emittedSince queuedStore
                  (snd (processDownloadJob flakyStorage fourFiles 0 queuedStore))))
       = [(Processing, 0), (Processing, 75), (Processing, 100), (Ready, 100)]
   \<and> sorted (map progress (jobTrace (q_jobId fourFiles) (emittedSince queuedStore
                  (snd (processDownloadJob flakyStorage fourFiles 0 queuedStore)))))"
proof -
  have g: "getJob (q_jobId fourFiles) queuedStore \<noteq> None"
    by code_simp
  have tr: "map view (jobTrace ''j1'' (emittedSince queuedStore
                  (snd (processDownloadJob flakyStorage fourFiles 0 queuedStore))))
       = [(Processing, 0), (Processing, 75), (Processing, 100), (Ready, 100)]"
    by code_simp
  from progress_nondecreasing_within_attempt [of fourFiles queuedStore flakyStorage 0]
  have s: "sorted (map progress (jobTrace (q_jobId fourFiles) (emittedSince queuedStore
                  (snd (processDownloadJob flakyStorage fourFiles 0 queuedStore)))))"
    by (rule conjunct1)
  from g tr s show ?thesis by simp
qed

text \<open>
  A job of four files whose first attempt fails in the second batch: the job is stored
  with progress 75 and then, when the queue retries it, with progress 0, both times with
  status \<open>processing\<close>.
\<close>

theorem progress_drops_on_retry_counterexample:
  "retriedTrace = [(Queued, 0), (Processing, 0), (Processing, 75), (Failed, 75),
                   (Processing, 0), (Processing, 75), (Processing, 100), (Ready, 100)]
   \<and> nonTerminalProgress retriedTrace = [0, 0, 75, 0, 75, 100]
   \<and> \<not> sorted (nonTerminalProgress retriedTrace)"
proof -
  have t: "retriedTrace = [(Queued, 0), (Processing, 0), (Processing, 75), (Failed, 75),
                   (Processing, 0), (Processing, 75), (Processing, 100), (Ready, 100)]"
    by code_simp
  show ?thesis unfolding t by simp
qed

section \<open>The worker on the queue\<close>








declare run.simps [simp del]





section \<open>The routes\<close>

text \<open>
  C4. A submission whose \<open>file_ids\<close> is empty or longer than 1000 is answered with the
  invalid-input response and nothing else happens: the system, so the map of jobs and
  the statistics of the store, is what it was.
\<close>

theorem invalid_submission_rejected:
  assumes "file_ids = [] \<or> length file_ids > 1000"
  shows "fst (asyncDownloadRoute file_ids uuid now sys) = InvalidInput400
     \<and> snd (asyncDownloadRoute file_ids uuid now sys) = sys
     \<and> jobs (store (snd (asyncDownloadRoute file_ids uuid now sys))) = jobs (store sys)
     \<and> getStats (store (snd (asyncDownloadRoute file_ids uuid now sys))) = getStats (store sys)"
proof -
  have "\<not> AsyncDownloadRequestSchema file_ids"
    using assms by (auto simp: AsyncDownloadRequestSchema_def)
  then show ?thesis by (simp add: asyncDownloadRoute_def)
qed

theorem invalid_submission_rejected_witness:
  "asyncDownloadRoute [] someUuid 0 idleSystem = (InvalidInput400, idleSystem)"
proof -
  have h: "([] :: int list) = [] \<or> length ([] :: int list) > 1000" by simp
  show ?thesis
    using invalid_submission_rejected [OF h, of someUuid 0 idleSystem]
    by (simp add: prod_eq_iff)
qed

text \<open>
  C8, as the code has it. The subscribe route first tests the format of the job id and
  answers 400 whenever it is not a UUID, whatever the store holds. For a well-formed id:
  an unknown job is answered \<open>NotFound\<close>, and a terminal job is answered with one
  snapshot of its status, progress, download URL and error. In none of these cases is a
  stream opened.
\<close>

theorem subscribe_unknown_or_terminal:
  "(getJob jid s = None \<longrightarrow>
      subscribeRoute jid s = (if uuidRegexTest jid then NotFound404 jid else BadRequest400))
   \<and> (\<forall>job. getJob jid s = Some job \<and> terminal job \<longrightarrow>
        subscribeRoute jid s =
          (if uuidRegexTest jid
           then Snapshot200 (jobId job) (status job) (progress job) (downloadUrl job) (error job)
           else BadRequest400))
   \<and> (getJob jid s = None \<or> (\<exists>job. getJob jid s = Some job \<and> terminal job) \<longrightarrow>
        (\<forall>a b c. subscribeRoute jid s \<noteq> StreamSSE a b c))
   \<and> (\<not> uuidRegexTest jid \<longrightarrow>
        subscribeRoute jid s = BadRequest400
        \<and> (\<forall>a b c. subscribeRoute jid s \<noteq> StreamSSE a b c))"
  by (auto simp: subscribeRoute_def terminal_def split: option.splits)

theorem subscribe_unknown_or_terminal_witness:
  "uuidRegexTest someUuid
   \<and> subscribeRoute someUuid newJobStore = NotFound404 someUuid
   \<and> subscribeRoute someUuid \<lparr>jobs = [(someUuid, readyJob)], events = []\<rparr>
       = Snapshot200 ''j1'' Ready 100 (Some ''https://s3.example.com/downloads/10001.zip'') None
   \<and> getJob ''j1'' processingStore \<noteq> None
   \<and> subscribeRoute ''j1'' processingStore = BadRequest400"
proof -
  have v: "uuidRegexTest someUuid"
    by (simp add: uuidRegexTest_def someUuid_def isHexDigit_def)
  have n: "getJob someUuid newJobStore = None"
    by (simp add: getJob_def newJobStore_def)
  have r: "getJob someUuid \<lparr>jobs = [(someUuid, readyJob)], events = []\<rparr> = Some readyJob
           \<and> terminal readyJob"
    by (simp add: getJob_def terminal_def readyJob_def)
  have m: "\<not> uuidRegexTest ''j1''"
    by (simp add: uuidRegexTest_def)
  have p: "getJob ''j1'' processingStore \<noteq> None"
    by (simp add: getJob_def processingStore_def)
  have b: "subscribeRoute ''j1'' processingStore = BadRequest400"
    using m subscribe_unknown_or_terminal [of "''j1''" processingStore] by simp
  show ?thesis
    using v n r p b subscribe_unknown_or_terminal [of someUuid newJobStore]
      subscribe_unknown_or_terminal [of someUuid "\<lparr>jobs = [(someUuid, readyJob)], events = []\<rparr>"]
    by (simp add: readyJob_def)
qed

text \<open>An unknown job id that is not a UUID is answered 400, not \<open>NotFound\<close>.\<close>

theorem subscribe_malformed_id_counterexample:
  "getJob ''abc'' newJobStore = None \<and> subscribeRoute ''abc'' newJobStore = BadRequest400"
  by (simp add: getJob_def newJobStore_def subscribeRoute_def uuidRegexTest_def)

end
